theory Spec2Isabelle
  imports Main "HOL-Library.Word"
begin

unbundle bit_operations_syntax

section \<open>Errors and outcomes\<close>

text \<open>
  The module \<^verbatim>\<open>bedup/tracking.py\<close> is Python 2.  An exception that leaves a
  function is a value of the model: every function that can raise returns an
  \<open>outcome\<close> next to the state it leaves behind.  \<open>IOError\<close> carries its
  \<^verbatim>\<open>errno\<close>; the three codes the source tests for are named as in
  \<^verbatim>\<open>errno.h\<close>.
\<close>

type_synonym errno = nat

definition ENOENT :: errno where
  "ENOENT = 2"

definition EACCES :: errno where
  "EACCES = 13"

definition ETXTBSY :: errno where
  "ETXTBSY = 26"

datatype error =
  IOError errno | TypeError | AssertionError | IndexError | AttributeError | NameError

datatype outcome = Returned | Raised error

section \<open>The catalog\<close>

text \<open>
  Sizes, generations, inode numbers and device numbers are unsigned quantities
  (btrfs stores them as 64-bit unsigned fields, the cutoff is a byte count), so
  they are natural numbers.  The nullable column \<^verbatim>\<open>last_tracked_size_cutoff\<close>
  is an option.  \<open>vol_st_dev\<close> is the transient attribute \<^verbatim>\<open>vol.st_dev\<close>
  that \<^verbatim>\<open>get_vol\<close> reads with \<^verbatim>\<open>fstat\<close>.
\<close>

record volume =
  vol_id :: nat
  fs_id :: nat
  size_cutoff :: nat
  last_tracked_generation :: nat
  last_tracked_size_cutoff :: "nat option"
  vol_st_dev :: nat

record inode =
  inode_vol_id :: nat
  ino :: nat
  inode_size :: nat
  has_updates :: bool
  mini_hash :: "nat option"
  fiemap_hash :: "nat option"

text \<open>
  A \<^verbatim>\<open>DedupEvent\<close> row of \<^verbatim>\<open>logModel.py\<close> with the \<^verbatim>\<open>DedupEventInode\<close>
  rows that point to it, each an \<open>(ino, vol_id)\<close> pair, in the order they
  were added.
\<close>

record dedup_event =
  event_fs_id :: nat
  item_size :: nat
  created :: nat
  event_inodes :: "(nat \<times> nat) list"

text \<open>
  The foreign key from \<^verbatim>\<open>Inode\<close> to \<^verbatim>\<open>Volume\<close> is not nullable, so
  \<^verbatim>\<open>inode.vol\<close> always resolves: the volume table is a function on volume
  ids.  The inode table is the list of its rows, which the operations below
  keep to at most one row for a key \<open>(vol_id, ino)\<close>.
\<close>

record catalog =
  volumes :: "nat \<Rightarrow> volume"
  inode_table :: "inode list"
  dedup_events :: "dedup_event list"

text \<open>
  A SQLAlchemy session: \<open>pending\<close> is what the session's objects hold,
  \<open>persisted\<close> what the last \<^verbatim>\<open>sess.commit()\<close> wrote.
\<close>

record session =
  pending :: catalog
  persisted :: catalog

definition commit :: "session \<Rightarrow> session" where
  "commit sess = sess\<lparr>persisted := pending sess\<rparr>"

definition has_key :: "nat \<Rightarrow> nat \<Rightarrow> inode \<Rightarrow> bool" where
  "has_key vid i row = (inode_vol_id row = vid \<and> ino row = i)"

definition find_inode :: "session \<Rightarrow> nat \<Rightarrow> nat \<Rightarrow> inode option" where
  "find_inode sess vid i = find (has_key vid i) (inode_table (pending sess))"

definition delete_inode :: "session \<Rightarrow> inode \<Rightarrow> session" where
  \<comment> \<open>\<^verbatim>\<open>sess.delete(inode)\<close>\<close>
  "delete_inode sess row =
     sess\<lparr>pending := (pending sess)\<lparr>inode_table :=
       filter (\<lambda>r. \<not> has_key (inode_vol_id row) (ino row) r) (inode_table (pending sess))\<rparr>\<rparr>"

definition expunge :: "session \<Rightarrow> inode \<Rightarrow> session" where
  \<comment> \<open>\<^verbatim>\<open>sess.expunge(inode)\<close>: the object that was just created leaves the session\<close>
  "expunge sess row =
     sess\<lparr>pending := (pending sess)\<lparr>inode_table :=
       filter (\<lambda>r. \<not> has_key (inode_vol_id row) (ino row) r) (inode_table (pending sess))\<rparr>\<rparr>"

definition put_inode :: "session \<Rightarrow> inode \<Rightarrow> session" where
  \<comment> \<open>the attributes of a row of the session are assigned, or a new row is added\<close>
  "put_inode sess row =
     sess\<lparr>pending := (pending sess)\<lparr>inode_table :=
       (if list_ex (has_key (inode_vol_id row) (ino row)) (inode_table (pending sess))
        then map (\<lambda>r. if has_key (inode_vol_id row) (ino row) r then row else r)
               (inode_table (pending sess))
        else inode_table (pending sess) @ [row])\<rparr>\<rparr>"

definition set_vol :: "session \<Rightarrow> nat \<Rightarrow> volume \<Rightarrow> session" where
  \<comment> \<open>an assignment to attributes of the session's volume object \<open>vid\<close>\<close>
  "set_vol sess vid vol =
     sess\<lparr>pending := (pending sess)\<lparr>volumes := (volumes (pending sess))(vid := vol)\<rparr>\<rparr>"

definition add_event :: "session \<Rightarrow> dedup_event \<Rightarrow> session" where
  \<comment> \<open>\<^verbatim>\<open>sess.add(evt)\<close> and \<^verbatim>\<open>sess.add(evti)\<close> for each of its inode rows\<close>
  "add_event sess evt =
     sess\<lparr>pending := (pending sess)\<lparr>dedup_events := dedup_events (pending sess) @ [evt]\<rparr>\<rparr>"

definition get_or_create :: "session \<Rightarrow> nat \<Rightarrow> nat \<Rightarrow> (inode \<times> bool) \<times> session" where
  \<comment> \<open>Modelled from the spec: \<^verbatim>\<open>get_or_create\<close> lives in \<^verbatim>\<open>model.py\<close>, which is
      not among the sources; spec 4.2 step 6 calls its use here an upsert of
      \<^verbatim>\<open>Inode(vol, ino)\<close>: the row with that key if there is one, a new row otherwise,
      and whether it was created.\<close>
  "get_or_create sess vid i =
     (case find_inode sess vid i of
        Some row \<Rightarrow> ((row, False), sess)
      | None \<Rightarrow>
          (let row = \<lparr>inode_vol_id = vid, ino = i, inode_size = 0, has_updates = False,
                       mini_hash = None, fiemap_hash = None\<rparr>
           in ((row, True), put_inode sess row)))"

section \<open>forget_vol\<close>

definition forget_vol :: "session \<Rightarrow> nat \<Rightarrow> session" where
  "forget_vol sess vid =
     (let vol = volumes (pending sess) vid;
          sess1 = sess\<lparr>pending := (pending sess)\<lparr>inode_table :=
                    filter (\<lambda>r. inode_vol_id r \<noteq> vid) (inode_table (pending sess))\<rparr>\<rparr>;
          sess2 = set_vol sess1 vid (vol\<lparr>last_tracked_generation := 0\<rparr>)
      in commit sess2)"

section \<open>The scanner: track_updated_files\<close>

text \<open>
  One record of a tree-search batch: the fields of the search header the source
  reads, and the three fields it decodes from the inode item behind it.
\<close>

record item =
  sh_objectid :: nat
  sh_type :: nat
  sh_offset :: nat
  sh_transid :: nat
  inode_gen :: nat
  size_field :: nat
  mode :: "32 word"

text \<open>The search key \<^verbatim>\<open>args.key\<close>, with the fields the source assigns.\<close>

record search_key =
  tree_id :: nat
  min_objectid :: nat
  min_type :: nat
  min_offset :: nat
  min_transid :: nat
  max_objectid :: nat
  max_offset :: nat
  max_transid :: nat
  max_type :: nat

definition BTRFS_INODE_ITEM_KEY :: nat where
  \<comment> \<open>the key type of inode items in the btrfs on-disk format\<close>
  "BTRFS_INODE_ITEM_KEY = 1"

definition u64_max :: nat where
  "u64_max = 2 ^ 64 - 1"

definition S_ISREG :: "32 word \<Rightarrow> bool" where
  \<comment> \<open>\<^verbatim>\<open>stat.S_ISREG\<close>: \<^verbatim>\<open>(mode & 0o170000) == 0o100000\<close>\<close>
  "S_ISREG m = (m AND 0xF000 = 0x8000)"

definition min_generation_of :: "volume \<Rightarrow> nat" where
  \<comment> \<open>lines 207 to 211\<close>
  "min_generation_of vol =
     (case last_tracked_size_cutoff vol of
        None \<Rightarrow> 0
      | Some c \<Rightarrow> if c \<le> size_cutoff vol then last_tracked_generation vol + 1 else 0)"

definition above_last_cutoff :: "volume \<Rightarrow> nat \<Rightarrow> bool" where
  \<comment> \<open>line 274: \<^verbatim>\<open>vol.last_tracked_size_cutoff and size >= vol.last_tracked_size_cutoff\<close>;
      Python's \<^verbatim>\<open>and\<close> tests truth, so both \<^verbatim>\<open>None\<close> and \<^verbatim>\<open>0\<close> fail it\<close>
  "above_last_cutoff vol sz =
     (case last_tracked_size_cutoff vol of
        None \<Rightarrow> False
      | Some c \<Rightarrow> c \<noteq> 0 \<and> c \<le> sz)"

text \<open>
  \<^verbatim>\<open>lookup_ino_path_one\<close> wraps an ioctl: it is the function \<open>lookup\<close> of the
  environment, from the volume (its id stands for \<^verbatim>\<open>vol.fd\<close>) and the inode
  number to an \<^verbatim>\<open>errno\<close> or a path.  Lines 283 to 307: the upsert, then the
  path lookup that withdraws the row again when it fails.  What follows a lookup
  that succeeds (decoding the path, the progress display) does not touch the
  catalog.
\<close>

definition upsert_item ::
  "volume \<Rightarrow> (nat \<Rightarrow> nat \<Rightarrow> errno + string) \<Rightarrow> item \<Rightarrow> session \<Rightarrow> session" where
  "upsert_item vol lookup it sess =
     (case get_or_create sess (vol_id vol) (sh_objectid it) of
        ((row, inode_created), sess1) \<Rightarrow>
          (let row' = row\<lparr>inode_size := size_field it, has_updates := True\<rparr>;
               sess2 = put_inode sess1 row'
           in case lookup (vol_id vol) (sh_objectid it) of
                Inl e \<Rightarrow> if inode_created then expunge sess2 row' else delete_inode sess2 row'
              | Inr path \<Rightarrow> sess2))"

definition process_item ::
  "volume \<Rightarrow> nat \<Rightarrow> (nat \<Rightarrow> nat \<Rightarrow> errno + string) \<Rightarrow> session \<Rightarrow> item \<Rightarrow> session" where
  \<comment> \<open>the body of the \<^verbatim>\<open>for item_id\<close> loop, lines 258 to 307\<close>
  "process_item vol min_generation lookup sess it =
     (if sh_type it \<noteq> BTRFS_INODE_ITEM_KEY then sess
      else if size_field it < size_cutoff vol then sess
      else if (if above_last_cutoff vol (size_field it)
               then inode_gen it \<le> last_tracked_generation vol
               else inode_gen it < min_generation) then sess
      else if \<not> S_ISREG (mode it) then sess
      else upsert_item vol lookup it sess)"

definition advance :: "search_key \<Rightarrow> item \<Rightarrow> search_key" where
  \<comment> \<open>lines 308 to 312, from the last header of the batch\<close>
  "advance sk sh =
     sk\<lparr>min_objectid := sh_objectid sh, min_type := sh_type sh, min_offset := sh_offset sh + 1\<rparr>"

text \<open>
  The kernel is the environment.  Each call of the tree-search ioctl is one
  entry of the list \<open>ioctls\<close>: a function from the key the call passes to the
  \<^verbatim>\<open>errno\<close> it fails with or the batch it returns.  \<^verbatim>\<open>while True\<close> has no
  bound of its own; the loop of the model ends with the list, and \<open>None\<close>
  says that the calls listed did not end the scan.
\<close>

fun search_loop ::
  "volume \<Rightarrow> nat \<Rightarrow> (nat \<Rightarrow> nat \<Rightarrow> errno + string) \<Rightarrow> (search_key \<Rightarrow> errno + item list) list \<Rightarrow>
   search_key \<Rightarrow> session \<Rightarrow> (outcome \<times> session) option" where
  "search_loop vol min_generation lookup [] sk sess = None"
| "search_loop vol min_generation lookup (ioctl # ioctls) sk sess =
     (case ioctl sk of
        Inl e \<Rightarrow> Some (Raised (IOError e), sess)
      | Inr items \<Rightarrow>
          if items = [] then Some (Returned, sess)
          else search_loop vol min_generation lookup ioctls (advance sk (last items))
                 (foldl (process_item vol min_generation lookup) sess items))"

definition initial_key :: "nat \<Rightarrow> search_key" where
  \<comment> \<open>lines 223 to 242; \<^verbatim>\<open>ffi.new\<close> zeroes the fields that are not assigned\<close>
  "initial_key min_generation =
     \<lparr>tree_id = 0, min_objectid = 0, min_type = 0, min_offset = 0,
      min_transid = min_generation, max_objectid = u64_max, max_offset = u64_max,
      max_transid = u64_max, max_type = BTRFS_INODE_ITEM_KEY\<rparr>"

text \<open>
  \<open>vid\<close> is the id of the session's \<^verbatim>\<open>vol\<close> object and \<open>top_generation\<close>
  what \<^verbatim>\<open>get_root_generation(vol.fd)\<close> reads.
\<close>

definition track_updated_files ::
  "session \<Rightarrow> nat \<Rightarrow> nat \<Rightarrow> (search_key \<Rightarrow> errno + item list) list \<Rightarrow>
   (nat \<Rightarrow> nat \<Rightarrow> errno + string) \<Rightarrow> (outcome \<times> session) option" where
  "track_updated_files sess vid top_generation ioctls lookup =
     (let vol = volumes (pending sess) vid;
          min_generation = min_generation_of vol
      in if min_generation > top_generation then Some (Returned, commit sess)
         else
           (case search_loop vol min_generation lookup ioctls (initial_key min_generation) sess of
              None \<Rightarrow> None
            | Some (Raised e, sess') \<Rightarrow> Some (Raised e, sess')
            | Some (Returned, sess') \<Rightarrow>
                Some (Returned,
                  commit (set_vol sess' vid
                    (vol\<lparr>last_tracked_generation := top_generation,
                         last_tracked_size_cutoff := Some (size_cutoff vol)\<rparr>)))))"

section \<open>The cloner: one final candidate group of dedup_tracked1\<close>

text \<open>
  \<^verbatim>\<open>dedup_tracked1\<close> narrows the groups of the size query twice and hands
  each final group \<^verbatim>\<open>comm3\<close> to the code from line 464 on, which this section
  embeds.  A group of the views that \<^verbatim>\<open>comm_mappings\<close> builds has a size and
  its inodes.
\<close>

record commonality =
  comm_size :: nat
  comm_inodes :: "inode list"

definition inode_count :: "commonality \<Rightarrow> nat" where
  \<comment> \<open>Modelled from the spec: the column \<^verbatim>\<open>inode_count\<close> of the views is declared
      in \<^verbatim>\<open>model.py\<close>, which is not among the sources; spec 4.5 step 1 takes it
      for the number of candidates of the group.\<close>
  "inode_count c = length (comm_inodes c)"

text \<open>
  The file system and the clock are the environment: what each wrapper returns
  is a function of its arguments.  A descriptor stands for the file object that
  owns it.  \<open>fopenat_rw\<close> takes the volume and the path; \<open>fds_in_write_use\<close>
  is the attribute of that name of \<^verbatim>\<open>ImmutableFDs(fds)\<close>; \<open>sha1\<close> is the
  digest of what \<^verbatim>\<open>afile.read\<close> returns until the end of the file,
  \<open>tell\<close> the position after it; \<open>clone_data w dest src\<close> is
  \<^verbatim>\<open>clone_data(dest=dfd, src=sfd, check_first=True)\<close>.
\<close>

record stat =
  st_ino :: nat
  st_dev :: nat

record world =
  lookup_ino_path_one :: "nat \<Rightarrow> nat \<Rightarrow> errno + string"
  fopenat_rw :: "nat \<Rightarrow> string \<Rightarrow> errno + nat"
  fds_in_write_use :: "nat list \<Rightarrow> nat list"
  sha1 :: "nat \<Rightarrow> nat"
  fstat :: "nat \<Rightarrow> stat"
  tell :: "nat \<Rightarrow> nat"
  cmp_files :: "nat \<Rightarrow> nat \<Rightarrow> bool"
  clone_data :: "nat \<Rightarrow> nat \<Rightarrow> bool"
  system_now :: nat

text \<open>
  An open file with the inode it was opened for.  The source keeps the inode in
  the dictionary \<^verbatim>\<open>fd_inodes\<close> under the file's descriptor; the descriptors
  of files that are open together are distinct, so the pair holds the same.
  \<^verbatim>\<open>fd_names\<close> only feeds the progress messages and is left out with them.
\<close>

record afile =
  fileno :: nat
  file_inode :: inode

text \<open>
  What \<^verbatim>\<open>dedup_tracked1\<close> changes while it runs: the session, the list
  \<^verbatim>\<open>skipped\<close> it shares with its caller, its locals \<^verbatim>\<open>ofile_soft\<close> and
  \<^verbatim>\<open>ofile_hard\<close>, and the process: its \<^verbatim>\<open>RLIMIT_OFILE\<close> pair, the
  descriptors \<^verbatim>\<open>fopenat_rw\<close> has opened, and the \<open>(dest, src)\<close> pairs of
  files for which \<^verbatim>\<open>clone_data\<close> returned true.
\<close>

record dedup_state =
  sess_of :: session
  skipped :: "inode list"
  ofile_soft :: nat
  ofile_hard :: nat
  rlimit_ofile :: "nat \<times> nat"
  rw_opened :: "nat list"
  cloned :: "(afile \<times> afile) list"

definition skip :: "inode \<Rightarrow> dedup_state \<Rightarrow> dedup_state" where
  \<comment> \<open>\<^verbatim>\<open>skipped.append(inode)\<close>\<close>
  "skip inode st = st\<lparr>skipped := skipped st @ [inode]\<rparr>"

definition inode_vol :: "dedup_state \<Rightarrow> inode \<Rightarrow> volume" where
  \<comment> \<open>\<^verbatim>\<open>inode.vol\<close>\<close>
  "inode_vol st inode = volumes (pending (sess_of st)) (inode_vol_id inode)"

definition ofile_budget :: "nat \<Rightarrow> commonality \<Rightarrow> dedup_state \<Rightarrow> bool \<times> dedup_state" where
  \<comment> \<open>lines 470 to 485; the flag is false when the group is left with \<^verbatim>\<open>continue\<close>\<close>
  "ofile_budget ofile_reserved comm3 st =
     (let count3 = inode_count comm3;
          ofile_req = 2 * count3 + ofile_reserved
      in if ofile_req > ofile_soft st then
           if ofile_req \<le> ofile_hard st then
             (True, st\<lparr>rlimit_ofile := (ofile_req, ofile_hard st), ofile_soft := ofile_req\<rparr>)
           else
             (False, st\<lparr>skipped := skipped st @ filter has_updates (comm_inodes comm3)\<rparr>)
         else (True, st))"

fun open_candidates ::
  "world \<Rightarrow> inode list \<Rightarrow> afile list \<Rightarrow> dedup_state \<Rightarrow> outcome \<times> afile list \<times> dedup_state" where
  \<comment> \<open>lines 487 to 526\<close>
  "open_candidates w [] files st = (Returned, files, st)"
| "open_candidates w (inode # rest) files st =
     (case lookup_ino_path_one w (inode_vol_id inode) (ino inode) of
        Inl e \<Rightarrow>
          if e = ENOENT then
            open_candidates w rest files (st\<lparr>sess_of := delete_inode (sess_of st) inode\<rparr>)
          else (Raised (IOError e), files, st)
      | Inr path \<Rightarrow>
          (case fopenat_rw w (inode_vol_id inode) path of
             Inl e \<Rightarrow>
               if e = ETXTBSY then open_candidates w rest files (skip inode st)
               else if e = EACCES then open_candidates w rest files (skip inode st)
               else if e = ENOENT then open_candidates w rest files (skip inode st)
               else (Raised (IOError e), files, st)
           | Inr fd \<Rightarrow>
               open_candidates w rest (files @ [\<lparr>fileno = fd, file_inode = inode\<rparr>])
                 (st\<lparr>rw_opened := rw_opened st @ [fd]\<rparr>)))"

text \<open>
  \<^verbatim>\<open>by_hash\<close> is a \<^verbatim>\<open>defaultdict(list)\<close>: here the list of its digests in
  the order they were first seen, each with its files.
\<close>

fun by_hash_append :: "nat \<Rightarrow> afile \<Rightarrow> (nat \<times> afile list) list \<Rightarrow> (nat \<times> afile list) list" where
  "by_hash_append d f [] = [(d, [f])]"
| "by_hash_append d f ((k, fs) # rest) =
     (if k = d then (k, fs @ [f]) # rest else (k, fs) # by_hash_append d f rest)"

definition hash_file ::
  "world \<Rightarrow> nat \<Rightarrow> nat list \<Rightarrow> (nat \<times> afile list) list \<times> dedup_state \<Rightarrow> afile \<Rightarrow>
   (nat \<times> afile list) list \<times> dedup_state" where
  \<comment> \<open>the body of the loop of lines 534 to 564\<close>
  "hash_file w comm3_size in_write_use acc f =
     (case acc of (by_hash, st) \<Rightarrow>
       (let fd = fileno f; inode = file_inode f
        in if fd \<in> set in_write_use then (by_hash, skip inode st)
           else
             (let digest = sha1 w fd; stt = fstat w fd
              in if st_ino stt \<noteq> ino inode then (by_hash, skip inode st)
                 else if st_dev stt \<noteq> vol_st_dev (inode_vol st inode) then (by_hash, skip inode st)
                 else
                   (let sz = tell w fd
                    in if sz \<noteq> comm3_size then
                         if sz < size_cutoff (inode_vol st inode)
                         then (by_hash, st\<lparr>sess_of := delete_inode (sess_of st) inode\<rparr>)
                         else (by_hash, skip inode st)
                       else (by_hash_append digest f by_hash, st)))))"

definition hash_files ::
  "world \<Rightarrow> nat \<Rightarrow> afile list \<Rightarrow> dedup_state \<Rightarrow> (nat \<times> afile list) list \<times> dedup_state" where
  "hash_files w comm3_size files st =
     foldl (hash_file w comm3_size (fds_in_write_use w (map fileno files))) ([], st) files"

fun clone_dfiles ::
  "world \<Rightarrow> afile \<Rightarrow> afile list \<Rightarrow> afile list \<Rightarrow> dedup_state \<Rightarrow>
   outcome \<times> afile list \<times> dedup_state" where
  \<comment> \<open>lines 577 to 592; \<^verbatim>\<open>assert False\<close> raises\<close>
  "clone_dfiles w sfile [] dfiles_successful st = (Returned, dfiles_successful, st)"
| "clone_dfiles w sfile (dfile # rest) dfiles_successful st =
     (if \<not> cmp_files w (fileno sfile) (fileno dfile) then
        (Raised AssertionError, dfiles_successful, st)
      else if clone_data w (fileno dfile) (fileno sfile) then
        clone_dfiles w sfile rest (dfiles_successful @ [dfile])
          (st\<lparr>cloned := cloned st @ [(dfile, sfile)]\<rparr>)
      else clone_dfiles w sfile rest dfiles_successful st)"

definition event_inode :: "afile \<Rightarrow> nat \<times> nat" where
  \<comment> \<open>\<^verbatim>\<open>DedupEventInode(event=evt, ino=inode.ino, vol=inode.vol)\<close>\<close>
  "event_inode f = (ino (file_inode f), inode_vol_id (file_inode f))"

definition clone_fileset ::
  "world \<Rightarrow> nat \<Rightarrow> nat \<Rightarrow> afile list \<Rightarrow> dedup_state \<Rightarrow> outcome \<times> dedup_state" where
  \<comment> \<open>the body of the loop of lines 566 to 602, for one value of \<^verbatim>\<open>by_hash\<close>\<close>
  "clone_fileset w fs comm3_size fileset st =
     (case fileset of
        [] \<Rightarrow> (Returned, st)
      | sfile # dfiles \<Rightarrow>
          if length fileset < 2 then (Returned, st)
          else
            (case clone_dfiles w sfile dfiles [] st of
               (Raised e, dfiles_successful, st') \<Rightarrow> (Raised e, st')
             | (Returned, dfiles_successful, st') \<Rightarrow>
                 if dfiles_successful \<noteq> [] then
                   (let evt = \<lparr>event_fs_id = fs, item_size = comm3_size, created = system_now w,
                               event_inodes = map event_inode (sfile # dfiles_successful)\<rparr>
                    in (Returned, st'\<lparr>sess_of := commit (add_event (sess_of st') evt)\<rparr>))
                 else (Returned, st')))"

text \<open>
  Python 2 leaves the order of \<^verbatim>\<open>by_hash.itervalues()\<close> open; the model takes
  the values in the order of \<^verbatim>\<open>by_hash\<close> above.
\<close>

fun clone_filesets ::
  "world \<Rightarrow> nat \<Rightarrow> nat \<Rightarrow> afile list list \<Rightarrow> dedup_state \<Rightarrow> outcome \<times> dedup_state" where
  "clone_filesets w fs comm3_size [] st = (Returned, st)"
| "clone_filesets w fs comm3_size (fileset # rest) st =
     (case clone_fileset w fs comm3_size fileset st of
        (Raised e, st') \<Rightarrow> (Raised e, st')
      | (Returned, st') \<Rightarrow> clone_filesets w fs comm3_size rest st')"

definition hash_and_clone ::
  "world \<Rightarrow> nat \<Rightarrow> nat \<Rightarrow> afile list \<Rightarrow> dedup_state \<Rightarrow> outcome \<times> dedup_state" where
  \<comment> \<open>lines 528 to 602: the block that holds the files immutable\<close>
  "hash_and_clone w fs comm3_size files st =
     (case hash_files w comm3_size files st of
        (by_hash, st1) \<Rightarrow> clone_filesets w fs comm3_size (map snd by_hash) st1)"

definition clone_group ::
  "world \<Rightarrow> nat \<Rightarrow> commonality \<Rightarrow> dedup_state \<Rightarrow> outcome \<times> dedup_state" where
  \<comment> \<open>lines 487 to 602: open, then hash and clone\<close>
  "clone_group w fs comm3 st =
     (case open_candidates w (comm_inodes comm3) [] st of
        (Raised e, files, st1) \<Rightarrow> (Raised e, st1)
      | (Returned, files, st1) \<Rightarrow> hash_and_clone w fs (comm_size comm3) files st1)"

definition dedup_comm3 ::
  "world \<Rightarrow> nat \<Rightarrow> nat \<Rightarrow> commonality \<Rightarrow> dedup_state \<Rightarrow> outcome \<times> dedup_state" where
  \<comment> \<open>lines 464 to 602: what \<^verbatim>\<open>dedup_tracked1\<close> does with one group \<^verbatim>\<open>comm3\<close>\<close>
  "dedup_comm3 w fs ofile_reserved comm3 st =
     (case ofile_budget ofile_reserved comm3 st of
        (False, st1) \<Rightarrow> (Returned, st1)
      | (True, st1) \<Rightarrow> clone_group w fs comm3 st1)"

section \<open>dedup_tracked and the two definitions of windowed_query\<close>

text \<open>
  A \<^verbatim>\<open>def\<close> statement binds the function's name in the module when it is
  executed; the module executes its statements in order, so of two definitions
  of one name the later is the one a call finds.  None of the parameters of
  \<^verbatim>\<open>windowed_query\<close> has a default.
\<close>

record pydef =
  def_name :: string
  def_params :: "string list"

definition module_defs :: "pydef list" where
  \<comment> \<open>lines 318 and 335\<close>
  "module_defs =
     [\<lparr>def_name = ''windowed_query'',
       def_params = [''window_start'', ''query'', ''attr'', ''per'', ''clear_updates'']\<rparr>,
      \<lparr>def_name = ''windowed_query'',
       def_params = [''window_start'', ''query'', ''attr'', ''per'']\<rparr>]"

definition resolve :: "pydef list \<Rightarrow> string \<Rightarrow> string list option" where
  "resolve defs name =
     (case filter (\<lambda>d. def_name d = name) defs of
        [] \<Rightarrow> None
      | d # ds \<Rightarrow> Some (def_params (last (d # ds))))"

definition bind_call :: "string list \<Rightarrow> nat \<Rightarrow> string list \<Rightarrow> error option" where
  \<comment> \<open>Python binds the arguments of a call before the body runs (for a generator
      function: before the generator is made); \<open>npos\<close> positional arguments and
      the keywords \<open>kws\<close> against parameters without defaults\<close>
  "bind_call params npos kws =
     (if length params < npos then Some TypeError
      else if list_ex (\<lambda>k. k \<notin> set params) kws then Some TypeError
      else if list_ex (\<lambda>k. k \<in> set (take npos params)) kws then Some TypeError
      else if list_ex (\<lambda>p. p \<notin> set kws) (drop npos params) then Some TypeError
      else None)"

definition Commonality1 :: "catalog \<Rightarrow> nat \<Rightarrow> nat list \<Rightarrow> commonality list" where
  \<comment> \<open>Modelled from the spec: \<^verbatim>\<open>comm_mappings\<close> lives in \<^verbatim>\<open>model.py\<close>, which is not
      among the sources; spec 4.3 gives the view: the inode rows with a volume of
      the set, the file system \<open>fs\<close> and \<^verbatim>\<open>has_updates\<close>, grouped by size, the
      groups of at least two, in descending order of size.\<close>
  "Commonality1 cat fs vol_ids =
     (let rows = filter (\<lambda>r. inode_vol_id r \<in> set vol_ids \<and>
                              fs_id (volumes cat (inode_vol_id r)) = fs \<and> has_updates r)
                   (inode_table cat);
          sizes = rev (sort (remdups (map inode_size rows)))
      in filter (\<lambda>c. 2 \<le> length (comm_inodes c))
           (map (\<lambda>sz. \<lparr>comm_size = sz, comm_inodes = filter (\<lambda>r. inode_size r = sz) rows\<rparr>) sizes))"

text \<open>
  \<^verbatim>\<open>dedup_tracked\<close>, with the module's definitions \<open>defs\<close> as they stand when
  it is called.  \<open>dedup_tracked1\<close> stands for line 390, the call of
  \<^verbatim>\<open>dedup_tracked1\<close> on the generator: it gets \<^verbatim>\<open>ofile_reserved\<close>, the start
  of the first window and the session, and what it does is left open.  The
  progress display \<^verbatim>\<open>tt\<close> is left out.  \<^verbatim>\<open>first()\<close> of a query without rows
  is \<^verbatim>\<open>None\<close>, whose \<^verbatim>\<open>.size\<close> raises.
\<close>

definition dedup_tracked ::
  "pydef list \<Rightarrow> (nat \<Rightarrow> nat \<Rightarrow> session \<Rightarrow> outcome \<times> session) \<Rightarrow> session \<Rightarrow> volume list \<Rightarrow>
   outcome \<times> session" where
  "dedup_tracked defs dedup_tracked1 sess volset =
     (case volset of
        [] \<Rightarrow> (Raised IndexError, sess)
      | vol0 # vols \<Rightarrow>
          (let fs = fs_id vol0;
               vol_ids = map vol_id volset
           in if \<not> list_all (\<lambda>vol. fs_id vol = fs) volset then (Raised AssertionError, sess)
              else
                (let ofile_reserved = 7 + length volset;
                     le = length (Commonality1 (pending sess) fs vol_ids)
                 in if le \<noteq> 0 then
                      (case inode_table (pending sess) of
                         [] \<Rightarrow> (Raised AttributeError, sess)
                       | r # rs \<Rightarrow>
                           (let window_start = foldr max (map inode_size (r # rs)) 0
                            in case resolve defs ''windowed_query'' of
                                 None \<Rightarrow> (Raised NameError, sess)
                               | Some params \<Rightarrow>
                                   (case bind_call params 2 [''attr'', ''per'', ''clear_updates''] of
                                      Some e \<Rightarrow> (Raised e, sess)
                                    | None \<Rightarrow>
                                        (case dedup_tracked1 ofile_reserved window_start sess of
                                           (Raised e, sess') \<Rightarrow> (Raised e, sess')
                                         | (Returned, sess') \<Rightarrow> (Returned, commit sess')))))
                    else (Returned, commit sess))))"

section \<open>Concrete scenarios\<close>

text \<open>
  A volume whose cutoff was lowered from 16 MiB to 8 MiB after generation 41 was
  tracked, and the same volume with the cutoff left at 8 MiB; the first volume
  as it was committed before \<^verbatim>\<open>get_vol\<close> lowered the cutoff, and a session
  that holds the lowered cutoff uncommitted.
\<close>

definition vol_shrunk :: volume where
  "vol_shrunk =
     \<lparr>vol_id = 1, fs_id = 1, size_cutoff = 8388608, last_tracked_generation = 41,
      last_tracked_size_cutoff = Some 16777216, vol_st_dev = 40\<rparr>"

definition vol_kept :: volume where
  "vol_kept =
     \<lparr>vol_id = 1, fs_id = 1, size_cutoff = 8388608, last_tracked_generation = 41,
      last_tracked_size_cutoff = Some 8388608, vol_st_dev = 40\<rparr>"

definition vol_before :: volume where
  "vol_before = vol_shrunk\<lparr>size_cutoff := 16777216\<rparr>"

definition sess_uncommitted :: session where
  "sess_uncommitted =
     \<lparr>pending = \<lparr>volumes = (\<lambda>vid. vol_shrunk), inode_table = [], dedup_events = []\<rparr>,
      persisted = \<lparr>volumes = (\<lambda>vid. vol_before), inode_table = [], dedup_events = []\<rparr>\<rparr>"

text \<open>
  A session with that volume and no inode rows, nothing uncommitted; two inode
  items of 16 MiB regular files (mode \<^verbatim>\<open>0o100644\<close>), one of generation 7 and
  one of generation 45; three answers of the tree-search ioctl (a batch of both
  items, an empty batch, \<^verbatim>\<open>EIO\<close>); a path lookup that succeeds.
\<close>

definition catalog0 :: catalog where
  "catalog0 = \<lparr>volumes = (\<lambda>vid. vol_kept), inode_table = [], dedup_events = []\<rparr>"

definition sess0 :: session where
  "sess0 = \<lparr>pending = catalog0, persisted = catalog0\<rparr>"

definition item_new :: item where
  "item_new =
     \<lparr>sh_objectid = 257, sh_type = 1, sh_offset = 0, sh_transid = 50, inode_gen = 45,
      size_field = 16777216, mode = 0x81A4\<rparr>"

definition item_old :: item where
  "item_old =
     \<lparr>sh_objectid = 258, sh_type = 1, sh_offset = 0, sh_transid = 50, inode_gen = 7,
      size_field = 16777216, mode = 0x81A4\<rparr>"

definition ioctl_batch :: "search_key \<Rightarrow> errno + item list" where
  "ioctl_batch sk = Inr [item_old, item_new]"

definition ioctl_done :: "search_key \<Rightarrow> errno + item list" where
  "ioctl_done sk = Inr []"

definition ioctl_eio :: "search_key \<Rightarrow> errno + item list" where
  "ioctl_eio sk = Inl 5"

definition lookup_ok :: "nat \<Rightarrow> nat \<Rightarrow> errno + string" where
  "lookup_ok vid i = Inr ''f''"

text \<open>
  Two inodes of 16 MiB with pending updates on that volume, one without, and a
  session that holds the first two; the files the cloner would open for them; a
  group of two and the group of 5000 identical files of the spec's scenario, with
  and without the inode that has no pending update; the limits of that scenario
  (soft 1024, hard 2048), and the same state with a soft limit of 8.
\<close>

definition inode_a :: inode where
  "inode_a = \<lparr>inode_vol_id = 1, ino = 257, inode_size = 16777216, has_updates = True,
              mini_hash = None, fiemap_hash = None\<rparr>"

definition inode_b :: inode where
  "inode_b = \<lparr>inode_vol_id = 1, ino = 258, inode_size = 16777216, has_updates = True,
              mini_hash = None, fiemap_hash = None\<rparr>"

definition inode_quiet :: inode where
  "inode_quiet = \<lparr>inode_vol_id = 1, ino = 256, inode_size = 16777216, has_updates = False,
                  mini_hash = None, fiemap_hash = None\<rparr>"

definition catalog_dups :: catalog where
  "catalog_dups = \<lparr>volumes = (\<lambda>vid. vol_kept), inode_table = [inode_a, inode_b], dedup_events = []\<rparr>"

definition sess_dups :: session where
  "sess_dups = \<lparr>pending = catalog_dups, persisted = catalog_dups\<rparr>"

definition file_a :: afile where
  "file_a = \<lparr>fileno = 3, file_inode = inode_a\<rparr>"

definition file_b :: afile where
  "file_b = \<lparr>fileno = 4, file_inode = inode_b\<rparr>"

definition file_c :: afile where
  "file_c = \<lparr>fileno = 5, file_inode = inode_b\<lparr>ino := 259\<rparr>\<rparr>"

definition two_group :: commonality where
  "two_group = \<lparr>comm_size = 16777216, comm_inodes = [inode_a, inode_b]\<rparr>"

definition big_group :: commonality where
  "big_group =
     \<lparr>comm_size = 16777216,
      comm_inodes = map (\<lambda>i. inode_a\<lparr>ino := 257 + i\<rparr>) [0..<5000]\<rparr>"

definition mixed_group :: commonality where
  "mixed_group = \<lparr>comm_size = 16777216, comm_inodes = inode_quiet # comm_inodes big_group\<rparr>"

definition st_limits :: dedup_state where
  "st_limits =
     \<lparr>sess_of = sess_dups, skipped = [], ofile_soft = 1024, ofile_hard = 2048,
      rlimit_ofile = (1024, 2048), rw_opened = [], cloned = []\<rparr>"

definition st_tight :: dedup_state where
  "st_tight = st_limits\<lparr>ofile_soft := 8, rlimit_ofile := (8, 2048)\<rparr>"

text \<open>
  An environment in which every call succeeds and every file has the content of
  inode 257, and variations of it: the comparison with descriptor 5 fails; every
  \<^verbatim>\<open>fstat\<close> reports inode 999; every file has shrunk to 100 bytes; opening
  fails with \<^verbatim>\<open>ETXTBSY\<close>, with \<^verbatim>\<open>ENOENT\<close>, with \<^verbatim>\<open>EIO\<close>.  A stand-in
  for the call of \<^verbatim>\<open>dedup_tracked1\<close> that would be seen if it ran.
\<close>

definition world_ok :: world where
  "world_ok =
     \<lparr>lookup_ino_path_one = (\<lambda>vid i. Inr ''f''),
      fopenat_rw = (\<lambda>vid path. Inr 3),
      fds_in_write_use = (\<lambda>fds. []),
      sha1 = (\<lambda>fd. 0),
      fstat = (\<lambda>fd. \<lparr>st_ino = 257, st_dev = 40\<rparr>),
      tell = (\<lambda>fd. 16777216),
      cmp_files = (\<lambda>a b. True),
      clone_data = (\<lambda>dest src. True),
      system_now = 1000\<rparr>"

definition world_differ :: world where
  "world_differ = world_ok\<lparr>cmp_files := (\<lambda>a b. b \<noteq> 5)\<rparr>"

definition world_raced :: world where
  "world_raced = world_ok\<lparr>fstat := (\<lambda>fd. \<lparr>st_ino = 999, st_dev = 40\<rparr>)\<rparr>"

definition world_truncated :: world where
  "world_truncated = world_ok\<lparr>tell := (\<lambda>fd. 100)\<rparr>"

definition world_busy :: world where
  "world_busy = world_ok\<lparr>fopenat_rw := (\<lambda>vid path. Inl ETXTBSY)\<rparr>"

definition world_moved :: world where
  "world_moved = world_ok\<lparr>fopenat_rw := (\<lambda>vid path. Inl ENOENT)\<rparr>"

definition world_eio :: world where
  "world_eio = world_ok\<lparr>fopenat_rw := (\<lambda>vid path. Inl 5)\<rparr>"

definition never_called :: "nat \<Rightarrow> nat \<Rightarrow> session \<Rightarrow> outcome \<times> session" where
  "never_called ofile_reserved window_start sess = (Returned, forget_vol sess 1)"

section \<open>Properties of the scanner\<close>

subsection \<open>What a scan leaves alone\<close>

lemma put_inode_frame:
  "persisted (put_inode sess row) = persisted sess"
  "volumes (pending (put_inode sess row)) = volumes (pending sess)"
  "dedup_events (pending (put_inode sess row)) = dedup_events (pending sess)"
  by (simp_all add: put_inode_def)

lemma delete_inode_frame:
  "persisted (delete_inode sess row) = persisted sess"
  "volumes (pending (delete_inode sess row)) = volumes (pending sess)"
  "dedup_events (pending (delete_inode sess row)) = dedup_events (pending sess)"
  by (simp_all add: delete_inode_def)

lemma expunge_frame:
  "persisted (expunge sess row) = persisted sess"
  "volumes (pending (expunge sess row)) = volumes (pending sess)"
  by (simp_all add: expunge_def)

lemma get_or_create_frame:
  "get_or_create sess vid i = ((row, c), sess1) \<Longrightarrow>
     persisted sess1 = persisted sess \<and> volumes (pending sess1) = volumes (pending sess)"
  by (auto simp: get_or_create_def Let_def put_inode_frame split: option.splits)

lemma upsert_item_frame:
  "persisted (upsert_item vol lookup it sess) = persisted sess \<and>
   volumes (pending (upsert_item vol lookup it sess)) = volumes (pending sess)"
proof (cases "get_or_create sess (vol_id vol) (sh_objectid it)")
  case (Pair rc sess1)
  obtain row c where rc: "rc = (row, c)" by (cases rc)
  from Pair rc have g: "get_or_create sess (vol_id vol) (sh_objectid it) = ((row, c), sess1)"
    by simp
  from get_or_create_frame [OF g] show ?thesis
    by (simp add: upsert_item_def g Let_def put_inode_frame delete_inode_frame expunge_frame
        split: sum.splits)
qed

lemma process_item_frame:
  "persisted (process_item vol mg lookup sess it) = persisted sess \<and>
   volumes (pending (process_item vol mg lookup sess it)) = volumes (pending sess)"
  by (simp add: process_item_def upsert_item_frame)

lemma foldl_process_item_frame:
  "persisted (foldl (process_item vol mg lookup) sess items) = persisted sess \<and>
   volumes (pending (foldl (process_item vol mg lookup) sess items)) = volumes (pending sess)"
  by (induction items arbitrary: sess) (simp_all add: process_item_frame)

lemma search_loop_frame:
  "search_loop vol mg lookup ioctls sk sess = Some (out, sess') \<Longrightarrow>
     persisted sess' = persisted sess \<and> volumes (pending sess') = volumes (pending sess)"
proof (induction ioctls arbitrary: sk sess)
  case Nil
  then show ?case by simp
next
  case (Cons f fs)
  show ?case
  proof (cases "f sk")
    case (Inl e)
    with Cons.prems show ?thesis by simp
  next
    case (Inr items)
    show ?thesis
    proof (cases "items = []")
      case True
      with Inr Cons.prems show ?thesis by simp
    next
      case False
      with Inr Cons.prems have
        "search_loop vol mg lookup fs (advance sk (last items))
           (foldl (process_item vol mg lookup) sess items) = Some (out, sess')"
        by simp
      from Cons.IH [OF this] show ?thesis
        by (simp add: foldl_process_item_frame)
    qed
  qed
qed

lemma search_loop_raises:
  "search_loop vol mg lookup ioctls sk sess = Some (Raised e, sess') \<Longrightarrow> \<exists>n. e = IOError n"
proof (induction ioctls arbitrary: sk sess)
  case Nil
  then show ?case by simp
next
  case (Cons f fs)
  show ?case
  proof (cases "f sk")
    case (Inl e)
    with Cons.prems show ?thesis by auto
  next
    case (Inr items)
    with Cons.prems Cons.IH show ?thesis
      by (cases "items = []") auto
  qed
qed

lemma search_loop_propagates:
  "list_all (\<lambda>g. \<forall>sk. \<exists>items. g sk = Inr items \<and> items \<noteq> []) pre \<Longrightarrow> \<forall>sk. f sk = Inl n \<Longrightarrow>
     \<exists>sess'. search_loop vol mg lookup (pre @ f # post) sk sess = Some (Raised (IOError n), sess')"
proof (induction pre arbitrary: sk sess)
  case Nil
  then show ?case by simp
next
  case (Cons g pre)
  from Cons.prems(1) obtain items where g: "g sk = Inr items" "items \<noteq> []"
    by auto
  from Cons.prems(1) have "list_all (\<lambda>g. \<forall>sk. \<exists>items. g sk = Inr items \<and> items \<noteq> []) pre"
    by simp
  from Cons.IH [OF this Cons.prems(2)] g show ?case
    by simp
qed

lemma track_updated_files_raised:
  assumes "track_updated_files sess vid top_generation ioctls lookup = Some (Raised e, sess')"
  shows "(\<exists>n. e = IOError n) \<and> persisted sess' = persisted sess \<and>
         volumes (pending sess') = volumes (pending sess)"
proof -
  let ?vol = "volumes (pending sess) vid"
  let ?mg = "min_generation_of ?vol"
  from assms have le: "\<not> top_generation < ?mg"
    by (auto simp: track_updated_files_def Let_def split: if_splits)
  with assms have "search_loop ?vol ?mg lookup ioctls (initial_key ?mg) sess = Some (Raised e, sess')"
    by (auto simp: track_updated_files_def Let_def split: option.splits outcome.splits)
  from search_loop_raises [OF this] search_loop_frame [OF this] show ?thesis
    by simp
qed

lemma commit_idem: "commit (commit sess) = commit sess"
  by (simp add: commit_def)

lemma track_updated_files_returned:
  assumes "track_updated_files sess vid top_generation ioctls lookup = Some (Returned, sess1)"
    and "min_generation_of (volumes (pending sess) vid) \<le> top_generation"
  shows "\<exists>sess'. sess1 = commit (set_vol sess' vid
            ((volumes (pending sess) vid)\<lparr>last_tracked_generation := top_generation,
               last_tracked_size_cutoff := Some (size_cutoff (volumes (pending sess) vid))\<rparr>))"
  using assms
  by (auto simp: track_updated_files_def Let_def split: option.splits outcome.splits)

lemma track_updated_files_cases:
  assumes "track_updated_files sess vid top_generation ioctls lookup = Some (out, sess')"
  shows "(top_generation < min_generation_of (volumes (pending sess) vid) \<and> out = Returned \<and> sess' = commit sess) \<or>
         (min_generation_of (volumes (pending sess) vid) \<le> top_generation \<and> (\<exists>e. out = Raised e) \<and>
            persisted sess' = persisted sess \<and> volumes (pending sess') = volumes (pending sess)) \<or>
         (min_generation_of (volumes (pending sess) vid) \<le> top_generation \<and> out = Returned \<and>
            (\<exists>s. sess' = commit (set_vol s vid
               ((volumes (pending sess) vid)\<lparr>last_tracked_generation := top_generation,
                  last_tracked_size_cutoff := Some (size_cutoff (volumes (pending sess) vid))\<rparr>))))"
proof (cases "top_generation < min_generation_of (volumes (pending sess) vid)")
  case True
  with assms show ?thesis by (auto simp: track_updated_files_def Let_def)
next
  case False
  show ?thesis
  proof (cases out)
    case Returned
    with assms False track_updated_files_returned [of sess vid top_generation ioctls lookup sess']
    show ?thesis by auto
  next
    case (Raised e)
    with assms False track_updated_files_raised [of sess vid top_generation ioctls lookup e sess']
    show ?thesis by auto
  qed
qed

subsection \<open>The row an upsert leaves\<close>

lemma find_map_replace:
  "list_ex P xs \<Longrightarrow> P row \<Longrightarrow> find P (map (\<lambda>r. if P r then row else r) xs) = Some row"
  by (induction xs) auto

lemma find_append_new:
  "\<not> list_ex P xs \<Longrightarrow> P row \<Longrightarrow> find P (xs @ [row]) = Some row"
  by (induction xs) auto

lemma find_put_inode:
  "find_inode (put_inode sess row) (inode_vol_id row) (ino row) = Some row"
proof (cases "list_ex (has_key (inode_vol_id row) (ino row)) (inode_table (pending sess))")
  case True
  have "has_key (inode_vol_id row) (ino row) row" by (simp add: has_key_def)
  from find_map_replace [OF True this] True show ?thesis
    by (simp add: find_inode_def put_inode_def)
next
  case False
  have "has_key (inode_vol_id row) (ino row) row" by (simp add: has_key_def)
  from find_append_new [OF False this] False show ?thesis
    by (simp add: find_inode_def put_inode_def)
qed

lemma get_or_create_key:
  "get_or_create sess vid i = ((row, c), sess1) \<Longrightarrow> inode_vol_id row = vid \<and> ino row = i"
  by (auto simp: get_or_create_def find_inode_def Let_def has_key_def find_Some_iff
      split: option.splits)

lemma upsert_item_row:
  assumes "lookup (vol_id vol) (sh_objectid it) = Inr path"
  shows "\<exists>row. find_inode (upsert_item vol lookup it sess) (vol_id vol) (sh_objectid it) = Some row \<and>
           inode_size row = size_field it \<and> has_updates row"
proof (cases "get_or_create sess (vol_id vol) (sh_objectid it)")
  case (Pair rc sess1)
  obtain row c where rc: "rc = (row, c)" by (cases rc)
  from Pair rc have g: "get_or_create sess (vol_id vol) (sh_objectid it) = ((row, c), sess1)"
    by simp
  let ?row' = "row\<lparr>inode_size := size_field it, has_updates := True\<rparr>"
  from get_or_create_key [OF g] have k: "inode_vol_id ?row' = vol_id vol" "ino ?row' = sh_objectid it"
    by simp_all
  have u: "upsert_item vol lookup it sess = put_inode sess1 ?row'"
    by (simp add: upsert_item_def g assms Let_def)
  from find_put_inode [of sess1 ?row'] k have
    "find_inode (put_inode sess1 ?row') (vol_id vol) (sh_objectid it) = Some ?row'"
    by simp
  with u show ?thesis by simp
qed

lemma eligible_conv:
  "(if above_last_cutoff vol sz then g \<le> last_tracked_generation vol
    else g < min_generation_of vol) =
   (\<not> (case last_tracked_size_cutoff vol of
          None \<Rightarrow> min_generation_of vol \<le> g
        | Some c \<Rightarrow> if c \<le> sz then last_tracked_generation vol < g
                    else min_generation_of vol \<le> g))"
  by (auto simp: above_last_cutoff_def min_generation_of_def split: option.splits)

lemma rescan_after_shrink_returns:
  "\<exists>sess1. track_updated_files sess_uncommitted 1 50 [ioctl_batch, ioctl_done] lookup_ok =
     Some (Returned, sess1)"
  by (simp add: track_updated_files_def Let_def sess_uncommitted_def vol_shrunk_def
      min_generation_of_def ioctl_batch_def ioctl_done_def split: option.splits)

lemma first_run_returns:
  "\<exists>sess1. track_updated_files sess0 1 50 [ioctl_batch, ioctl_done] lookup_ok = Some (Returned, sess1)"
  by (simp add: track_updated_files_def Let_def sess0_def catalog0_def vol_kept_def
      min_generation_of_def ioctl_batch_def ioctl_done_def split: option.splits)

subsection \<open>The claims about the scanner\<close>

text \<open>
  C6: the scan starts at \<open>last_tracked_generation + 1\<close> exactly when
  \<^verbatim>\<open>last_tracked_size_cutoff\<close> is set and at most the current cutoff, and at
  generation 0 otherwise; a cutoff below the last tracked one gives 0.
\<close>

theorem min_generation_iff:
  "(min_generation_of vol = last_tracked_generation vol + 1) =
     (\<exists>c. last_tracked_size_cutoff vol = Some c \<and> c \<le> size_cutoff vol) \<and>
   (min_generation_of vol \<noteq> last_tracked_generation vol + 1 \<longrightarrow> min_generation_of vol = 0) \<and>
   (\<forall>c. last_tracked_size_cutoff vol = Some c \<and> size_cutoff vol < c \<longrightarrow> min_generation_of vol = 0)"
  by (auto simp: min_generation_of_def split: option.splits)

theorem min_generation_iff_witness:
  "min_generation_of vol_shrunk = 0 \<and> min_generation_of vol_kept = 42"
  using min_generation_iff [of vol_shrunk] min_generation_iff [of vol_kept]
  by (simp add: vol_shrunk_def vol_kept_def)

text \<open>
  C7: in a scan (where \<open>min_generation\<close> is \<open>min_generation_of vol\<close>) an item
  changes the catalog only if it is wanted: its type is \<^verbatim>\<open>INODE_ITEM_KEY\<close>,
  its size is at least the cutoff, its mode is that of a regular file, and it is
  eligible, which asks for an inner generation above \<open>last_tracked_generation\<close>
  when \<^verbatim>\<open>last_tracked_size_cutoff\<close> is set and at most the size, and for an
  inner generation of at least \<open>min_generation\<close> otherwise.  An item that is
  not wanted leaves the session as it was; a wanted one is upserted, and when its
  path resolves its row holds the new size and \<^verbatim>\<open>has_updates\<close>.  (The source
  tests the truth of \<^verbatim>\<open>last_tracked_size_cutoff\<close>, which a cutoff of 0 fails;
  the two tests agree there because \<open>min_generation\<close> is then
  \<open>last_tracked_generation + 1\<close>.)
\<close>

theorem scan_item_upsert:
  "let sz = size_field it;
       eligible = (case last_tracked_size_cutoff vol of
                     None \<Rightarrow> min_generation_of vol \<le> inode_gen it
                   | Some c \<Rightarrow> if c \<le> sz then last_tracked_generation vol < inode_gen it
                               else min_generation_of vol \<le> inode_gen it);
       wanted = (sh_type it = BTRFS_INODE_ITEM_KEY \<and> size_cutoff vol \<le> sz \<and>
                 S_ISREG (mode it) \<and> eligible);
       sess' = process_item vol (min_generation_of vol) lookup sess it
   in (\<not> wanted \<longrightarrow> sess' = sess) \<and>
      (wanted \<longrightarrow> sess' = upsert_item vol lookup it sess) \<and>
      (wanted \<and> lookup (vol_id vol) (sh_objectid it) = Inr path \<longrightarrow>
         (\<exists>row. find_inode sess' (vol_id vol) (sh_objectid it) = Some row \<and>
                inode_size row = sz \<and> has_updates row))"
proof -
  have p: "process_item vol (min_generation_of vol) lookup sess it =
      (if sh_type it = BTRFS_INODE_ITEM_KEY \<and> size_cutoff vol \<le> size_field it \<and>
          S_ISREG (mode it) \<and>
          (case last_tracked_size_cutoff vol of
             None \<Rightarrow> min_generation_of vol \<le> inode_gen it
           | Some c \<Rightarrow> if c \<le> size_field it then last_tracked_generation vol < inode_gen it
                       else min_generation_of vol \<le> inode_gen it)
       then upsert_item vol lookup it sess else sess)"
    unfolding process_item_def eligible_conv by auto
  show ?thesis
    unfolding Let_def p using upsert_item_row [of lookup vol it path sess] by auto
qed

theorem scan_item_upsert_witness:
  "process_item vol_kept (min_generation_of vol_kept) lookup_ok sess0 item_old = sess0 \<and>
   (\<exists>row. find_inode (process_item vol_kept (min_generation_of vol_kept) lookup_ok sess0 item_new)
            1 257 = Some row \<and> inode_size row = 16777216 \<and> has_updates row)"
proof -
  from scan_item_upsert [of item_old vol_kept lookup_ok sess0 "''f''"]
  have old: "process_item vol_kept (min_generation_of vol_kept) lookup_ok sess0 item_old = sess0"
    by (simp add: Let_def item_old_def vol_kept_def min_generation_of_def)
  from scan_item_upsert [of item_new vol_kept lookup_ok sess0 "''f''"]
  have new: "\<exists>row. find_inode
      (process_item vol_kept (min_generation_of vol_kept) lookup_ok sess0 item_new) 1 257 = Some row \<and>
      inode_size row = 16777216 \<and> has_updates row"
    by (auto simp: Let_def item_new_def vol_kept_def min_generation_of_def lookup_ok_def
        BTRFS_INODE_ITEM_KEY_def S_ISREG_def)
  from old new show ?thesis by simp
qed

text \<open>
  C8: when the tree-search ioctl fails with \<open>n\<close> after any number of calls
  that returned items, \<^verbatim>\<open>track_updated_files\<close> raises that \<^verbatim>\<open>IOError\<close>;
  what was committed is unchanged, the volume keeps its
  \<open>last_tracked_generation\<close> and \<open>last_tracked_size_cutoff\<close>, and the next
  run starts from the same generation.
\<close>

theorem scan_ioctl_error:
  assumes "min_generation_of (volumes (pending sess) vid) \<le> top_generation"
    and "list_all (\<lambda>g. \<forall>sk. \<exists>items. g sk = Inr items \<and> items \<noteq> []) pre"
    and "\<forall>sk. f sk = Inl n"
  shows "\<exists>sess'. track_updated_files sess vid top_generation (pre @ f # post) lookup =
                   Some (Raised (IOError n), sess') \<and>
                 persisted sess' = persisted sess \<and>
                 volumes (pending sess') = volumes (pending sess) \<and>
                 min_generation_of (volumes (pending sess') vid) =
                   min_generation_of (volumes (pending sess) vid)"
proof -
  let ?vol = "volumes (pending sess) vid"
  let ?mg = "min_generation_of ?vol"
  from search_loop_propagates [OF assms(2) assms(3)] obtain sess' where
    loop: "search_loop ?vol ?mg lookup (pre @ f # post) (initial_key ?mg) sess =
             Some (Raised (IOError n), sess')"
    by blast
  with assms(1) have run: "track_updated_files sess vid top_generation (pre @ f # post) lookup =
      Some (Raised (IOError n), sess')"
    by (simp add: track_updated_files_def Let_def)
  from search_loop_frame [OF loop] run show ?thesis
    by simp
qed

theorem scan_ioctl_error_witness:
  "\<exists>sess'. track_updated_files sess0 1 50 [ioctl_batch, ioctl_eio] lookup_ok =
             Some (Raised (IOError 5), sess') \<and>
           persisted sess' = persisted sess0 \<and>
           last_tracked_generation (volumes (persisted sess') 1) = 41"
  using scan_ioctl_error [of sess0 1 50 "[ioctl_batch]" ioctl_eio 5 "[]" lookup_ok]
  by (auto simp: sess0_def catalog0_def vol_kept_def min_generation_of_def ioctl_batch_def
      ioctl_eio_def)

text \<open>
  C9: a run that scanned and returned leaves \<open>last_tracked_generation\<close> at the
  root generation and \<open>last_tracked_size_cutoff\<close> at the cutoff; a second run
  with the same root generation and cutoff then finds
  \<open>min_generation = top_generation + 1\<close> and returns the session as it got it,
  whatever the kernel would answer.
\<close>

theorem rescan_is_noop:
  assumes "track_updated_files sess vid top_generation ioctls lookup = Some (Returned, sess1)"
    and "min_generation_of (volumes (pending sess) vid) \<le> top_generation"
  shows "last_tracked_generation (volumes (pending sess1) vid) = top_generation \<and>
         last_tracked_size_cutoff (volumes (pending sess1) vid) =
           Some (size_cutoff (volumes (pending sess) vid)) \<and>
         size_cutoff (volumes (pending sess1) vid) = size_cutoff (volumes (pending sess) vid) \<and>
         min_generation_of (volumes (pending sess1) vid) = top_generation + 1 \<and>
         track_updated_files sess1 vid top_generation ioctls' lookup' = Some (Returned, sess1)"
proof -
  from track_updated_files_returned [OF assms] obtain sess' where
    s1: "sess1 = commit (set_vol sess' vid
            ((volumes (pending sess) vid)\<lparr>last_tracked_generation := top_generation,
               last_tracked_size_cutoff := Some (size_cutoff (volumes (pending sess) vid))\<rparr>))"
    by blast
  have v: "volumes (pending sess1) vid =
      (volumes (pending sess) vid)\<lparr>last_tracked_generation := top_generation,
         last_tracked_size_cutoff := Some (size_cutoff (volumes (pending sess) vid))\<rparr>"
    by (simp add: s1 commit_def set_vol_def)
  have mg: "min_generation_of (volumes (pending sess1) vid) = top_generation + 1"
    by (simp add: v min_generation_of_def)
  have c: "commit sess1 = sess1"
    by (simp add: s1 commit_idem)
  have "track_updated_files sess1 vid top_generation ioctls' lookup' = Some (Returned, sess1)"
    by (simp add: track_updated_files_def Let_def mg c)
  with v mg show ?thesis by simp
qed

theorem rescan_is_noop_witness:
  "\<exists>sess1. track_updated_files sess0 1 50 [ioctl_batch, ioctl_done] lookup_ok = Some (Returned, sess1) \<and>
           last_tracked_generation (volumes (pending sess1) 1) = 50 \<and>
           track_updated_files sess1 1 50 [ioctl_batch, ioctl_done] lookup_ok = Some (Returned, sess1)"
proof -
  from first_run_returns obtain sess1 where
    r: "track_updated_files sess0 1 50 [ioctl_batch, ioctl_done] lookup_ok = Some (Returned, sess1)"
    by blast
  have m: "min_generation_of (volumes (pending sess0) 1) \<le> 50"
    by (simp add: sess0_def catalog0_def vol_kept_def min_generation_of_def)
  from rescan_is_noop [OF r m, of "[ioctl_batch, ioctl_done]" lookup_ok] r show ?thesis
    by auto
qed

text \<open>
  C10, as stated, fails: \<^verbatim>\<open>forget_vol\<close> sets \<open>last_tracked_generation\<close> to
  0, here from 41.
\<close>

theorem forget_vol_resets_cursor:
  "last_tracked_generation (volumes (pending (forget_vol sess0 1)) 1) <
   last_tracked_generation (volumes (pending sess0) 1)"
  by (simp add: forget_vol_def Let_def commit_def set_vol_def sess0_def catalog0_def vol_kept_def)

text \<open>
  C10, amended: over a run of \<^verbatim>\<open>track_updated_files\<close>, however it ends,
  \<open>last_tracked_generation\<close> does not decrease in the session when the root
  generation is not below it; the committed value does not decrease either when
  it was not above the session's before the run; \<^verbatim>\<open>forget_vol\<close> resets it
  to 0.
\<close>

theorem cursor_monotone:
  assumes "last_tracked_generation (volumes (pending sess) vid) \<le> top_generation"
    and "track_updated_files sess vid top_generation ioctls lookup = Some (out, sess')"
  shows "last_tracked_generation (volumes (pending sess) vid) \<le>
           last_tracked_generation (volumes (pending sess') vid) \<and>
         (last_tracked_generation (volumes (persisted sess) vid) \<le>
            last_tracked_generation (volumes (pending sess) vid) \<longrightarrow>
          last_tracked_generation (volumes (persisted sess) vid) \<le>
            last_tracked_generation (volumes (persisted sess') vid)) \<and>
         last_tracked_generation (volumes (pending (forget_vol sess vid)) vid) = 0"
proof -
  have f: "last_tracked_generation (volumes (pending (forget_vol sess vid)) vid) = 0"
    by (simp add: forget_vol_def Let_def commit_def set_vol_def)
  from track_updated_files_cases [OF assms(2)] assms(1) f show ?thesis
    by (auto simp: commit_def set_vol_def)
qed

theorem cursor_monotone_witness:
  "volumes (persisted sess_uncommitted) 1 \<noteq> volumes (pending sess_uncommitted) 1 \<and>
   (\<exists>sess1. track_updated_files sess_uncommitted 1 50 [ioctl_batch, ioctl_done] lookup_ok =
              Some (Returned, sess1) \<and>
            (41::nat) \<le> last_tracked_generation (volumes (pending sess1) 1) \<and>
            (41::nat) \<le> last_tracked_generation (volumes (persisted sess1) 1))"
proof -
  from rescan_after_shrink_returns obtain sess1 where
    r: "track_updated_files sess_uncommitted 1 50 [ioctl_batch, ioctl_done] lookup_ok =
          Some (Returned, sess1)"
    by blast
  have a: "last_tracked_generation (volumes (pending sess_uncommitted) 1) \<le> 50"
    by (simp add: sess_uncommitted_def vol_shrunk_def)
  have d: "volumes (persisted sess_uncommitted) 1 \<noteq> volumes (pending sess_uncommitted) 1"
    by (simp add: sess_uncommitted_def vol_before_def vol_shrunk_def)
  from cursor_monotone [OF a r] have
    "(41::nat) \<le> last_tracked_generation (volumes (pending sess1) 1) \<and>
     (41::nat) \<le> last_tracked_generation (volumes (persisted sess1) 1)"
    by (simp add: sess_uncommitted_def vol_before_def vol_shrunk_def)
  with r d show ?thesis by blast
qed

section \<open>Properties of the cloner\<close>

subsection \<open>Opening the candidates\<close>

lemma skip_fields:
  "sess_of (skip inode st) = sess_of st"
  "skipped (skip inode st) = skipped st @ [inode]"
  "cloned (skip inode st) = cloned st"
  "rw_opened (skip inode st) = rw_opened st"
  by (simp_all add: skip_def)

lemma open_step_stale:
  "lookup_ino_path_one w (inode_vol_id x) (ino x) = Inl ENOENT \<Longrightarrow>
     open_candidates w (x # rest) files st =
       open_candidates w rest files (st\<lparr>sess_of := delete_inode (sess_of st) x\<rparr>)"
  by simp

lemma open_step_lookup_fatal:
  "lookup_ino_path_one w (inode_vol_id x) (ino x) = Inl e \<Longrightarrow> e \<noteq> ENOENT \<Longrightarrow>
     open_candidates w (x # rest) files st = (Raised (IOError e), files, st)"
  by simp

lemma open_step_defer:
  "lookup_ino_path_one w (inode_vol_id x) (ino x) = Inr path \<Longrightarrow>
   fopenat_rw w (inode_vol_id x) path = Inl e \<Longrightarrow> e = ETXTBSY \<or> e = EACCES \<or> e = ENOENT \<Longrightarrow>
     open_candidates w (x # rest) files st = open_candidates w rest files (skip x st)"
  by auto

lemma open_step_open_fatal:
  "lookup_ino_path_one w (inode_vol_id x) (ino x) = Inr path \<Longrightarrow>
   fopenat_rw w (inode_vol_id x) path = Inl e \<Longrightarrow> \<not> (e = ETXTBSY \<or> e = EACCES \<or> e = ENOENT) \<Longrightarrow>
     open_candidates w (x # rest) files st = (Raised (IOError e), files, st)"
  by auto

lemma open_step_opened:
  "lookup_ino_path_one w (inode_vol_id x) (ino x) = Inr path \<Longrightarrow>
   fopenat_rw w (inode_vol_id x) path = Inr fd \<Longrightarrow>
     open_candidates w (x # rest) files st =
       open_candidates w rest (files @ [\<lparr>fileno = fd, file_inode = x\<rparr>])
         (st\<lparr>rw_opened := rw_opened st @ [fd]\<rparr>)"
  by simp

lemma find_filter_same:
  "(\<And>r. P r \<Longrightarrow> Q r) \<Longrightarrow> find P (filter Q xs) = find P xs"
  by (induction xs) auto

lemma find_filter_gone:
  "(\<And>r. P r \<Longrightarrow> \<not> Q r) \<Longrightarrow> find P (filter Q xs) = None"
  by (induction xs) auto

lemma has_key_same:
  "has_key v i row \<Longrightarrow> has_key v' i' row \<Longrightarrow> v' = v \<and> i' = i"
  by (auto simp: has_key_def)

lemma open_candidates_exact:
  fixes w :: world
  assumes stale: "\<And>x. stale x = (lookup_ino_path_one w (inode_vol_id x) (ino x) = Inl ENOENT)"
    and deferred: "\<And>x. deferred x =
        (\<exists>path e. lookup_ino_path_one w (inode_vol_id x) (ino x) = Inr path \<and>
           fopenat_rw w (inode_vol_id x) path = Inl e \<and>
           (e = ETXTBSY \<or> e = EACCES \<or> e = ENOENT))"
    and fatal: "\<And>x e. fatal x e =
        ((lookup_ino_path_one w (inode_vol_id x) (ino x) = Inl e \<and> e \<noteq> ENOENT) \<or>
         (\<exists>path. lookup_ino_path_one w (inode_vol_id x) (ino x) = Inr path \<and>
            fopenat_rw w (inode_vol_id x) path = Inl e \<and>
            \<not> (e = ETXTBSY \<or> e = EACCES \<or> e = ENOENT)))"
  shows "open_candidates w inodes files st = (out, files', st') \<Longrightarrow>
     skipped st' = skipped st @ filter deferred (takeWhile (\<lambda>x. \<forall>e. \<not> fatal x e) inodes) \<and>
     inode_table (pending (sess_of st')) =
       filter (\<lambda>row. \<not> list_ex (\<lambda>x. stale x \<and> has_key (inode_vol_id x) (ino x) row)
                        (takeWhile (\<lambda>x. \<forall>e. \<not> fatal x e) inodes))
         (inode_table (pending (sess_of st))) \<and>
     volumes (pending (sess_of st')) = volumes (pending (sess_of st)) \<and>
     dedup_events (pending (sess_of st')) = dedup_events (pending (sess_of st)) \<and>
     persisted (sess_of st') = persisted (sess_of st) \<and>
     cloned st' = cloned st \<and>
     (list_all (\<lambda>x. \<forall>e. \<not> fatal x e) inodes \<longrightarrow> out = Returned) \<and>
     (\<forall>x rest e. inodes = takeWhile (\<lambda>x. \<forall>e. \<not> fatal x e) inodes @ x # rest \<and> fatal x e \<longrightarrow>
        out = Raised (IOError e))"
proof (induction inodes arbitrary: files st)
  case Nil
  then show ?case by simp
next
  case (Cons x rest)
  note run = Cons.prems
  let ?ok = "\<lambda>x. \<forall>e. \<not> fatal x e"
  show ?case
  proof (cases "lookup_ino_path_one w (inode_vol_id x) (ino x)")
    case (Inl e)
    show ?thesis
    proof (cases "e = ENOENT")
      case True
      have v: "stale x" "\<not> deferred x" "?ok x"
        using Inl True by (simp_all add: stale deferred fatal)
      from run have r:
        "open_candidates w rest files (st\<lparr>sess_of := delete_inode (sess_of st) x\<rparr>) = (out, files', st')"
        by (simp only: open_step_stale [OF Inl [unfolded True]])
      have t: "inode_table (pending (delete_inode (sess_of st) x)) =
          filter (\<lambda>row. \<not> has_key (inode_vol_id x) (ino x) row) (inode_table (pending (sess_of st)))"
        by (simp add: delete_inode_def)
      from Cons.IH [OF r] v show ?thesis
        by (simp add: t delete_inode_frame)
    next
      case False
      have v: "fatal x e" "\<And>e'. fatal x e' \<Longrightarrow> e' = e"
        using Inl False by (simp_all add: fatal)
      then have nok: "\<not> ?ok x" by blast
      from run have "(Raised (IOError e), files, st) = (out, files', st')"
        by (simp only: open_step_lookup_fatal [OF Inl False])
      then have eq: "out = Raised (IOError e)" "st' = st" by simp_all
      have tw: "takeWhile ?ok (x # rest) = []" using nok by simp
      have la: "\<not> list_all ?ok (x # rest)" using nok by simp
      have first: "\<forall>x' rest' e'. x # rest = takeWhile ?ok (x # rest) @ x' # rest' \<and> fatal x' e' \<longrightarrow>
          out = Raised (IOError e')"
      proof (intro allI impI)
        fix x' rest' e'
        assume a: "x # rest = takeWhile ?ok (x # rest) @ x' # rest' \<and> fatal x' e'"
        then have "x' = x" unfolding tw by simp
        with a have "fatal x e'" by simp
        from v(2) [OF this] eq show "out = Raised (IOError e')" by simp
      qed
      from la first show ?thesis
        unfolding tw eq by simp
    qed
  next
    case (Inr path)
    note look = Inr
    show ?thesis
    proof (cases "fopenat_rw w (inode_vol_id x) path")
      case (Inl e)
      show ?thesis
      proof (cases "e = ETXTBSY \<or> e = EACCES \<or> e = ENOENT")
        case True
        have v: "\<not> stale x" "deferred x" "?ok x"
          using look Inl True by (simp_all add: stale deferred fatal)
        from run have r: "open_candidates w rest files (skip x st) = (out, files', st')"
          by (simp only: open_step_defer [OF look Inl True])
        from Cons.IH [OF r] v show ?thesis
          by (simp add: skip_fields)
      next
        case False
        have v: "fatal x e" "\<And>e'. fatal x e' \<Longrightarrow> e' = e"
          using look Inl False by (auto simp: fatal)
        then have nok: "\<not> ?ok x" by blast
        from run have "(Raised (IOError e), files, st) = (out, files', st')"
          by (simp only: open_step_open_fatal [OF look Inl False])
        then have eq: "out = Raised (IOError e)" "st' = st" by simp_all
        have tw: "takeWhile ?ok (x # rest) = []" using nok by simp
        have la: "\<not> list_all ?ok (x # rest)" using nok by simp
        have first: "\<forall>x' rest' e'. x # rest = takeWhile ?ok (x # rest) @ x' # rest' \<and> fatal x' e' \<longrightarrow>
            out = Raised (IOError e')"
        proof (intro allI impI)
          fix x' rest' e'
          assume a: "x # rest = takeWhile ?ok (x # rest) @ x' # rest' \<and> fatal x' e'"
          then have "x' = x" unfolding tw by simp
          with a have "fatal x e'" by simp
          from v(2) [OF this] eq show "out = Raised (IOError e')" by simp
        qed
        from la first show ?thesis
          unfolding tw eq by simp
      qed
    next
      case (Inr fd)
      have v: "\<not> stale x" "\<not> deferred x" "?ok x"
        using look Inr by (simp_all add: stale deferred fatal)
      from run have r:
        "open_candidates w rest (files @ [\<lparr>fileno = fd, file_inode = x\<rparr>])
           (st\<lparr>rw_opened := rw_opened st @ [fd]\<rparr>) = (out, files', st')"
        by (simp only: open_step_opened [OF look Inr])
      from Cons.IH [OF r] v show ?thesis
        by simp
    qed
  qed
qed

subsection \<open>Hashing and the checks after it\<close>

lemma by_hash_append_files:
  "set (concat (map snd (by_hash_append d f by_hash))) = insert f (set (concat (map snd by_hash)))"
proof (induction d f by_hash rule: by_hash_append.induct)
  case (1 d f)
  show ?case by simp
next
  case (2 d f k fs rest)
  show ?case
  proof (cases "k = d")
    case True
    then show ?thesis by auto
  next
    case False
    have "set (concat (map snd (by_hash_append d f ((k, fs) # rest)))) =
        set fs \<union> set (concat (map snd (by_hash_append d f rest)))"
      using False by simp
    also have "\<dots> = set fs \<union> insert f (set (concat (map snd rest)))"
      using 2 False by simp
    also have "\<dots> = insert f (set (concat (map snd ((k, fs) # rest))))"
      by simp
    finally show ?thesis .
  qed
qed

lemma insert_bucket:
  "\<not> P g \<Longrightarrow> \<not> Q g \<Longrightarrow>
     insert g B \<union> {x \<in> set rest. \<not> P x \<and> \<not> Q x} =
     B \<union> {x \<in> set (g # rest). \<not> P x \<and> \<not> Q x}"
  by auto

lemma hash_file_step:
  fixes w :: world
  assumes deferred: "\<And>g. deferred g =
        (fileno g \<in> set in_use \<or>
         st_ino (fstat w (fileno g)) \<noteq> ino (file_inode g) \<or>
         st_dev (fstat w (fileno g)) \<noteq> vol_st_dev (V (inode_vol_id (file_inode g))) \<or>
         (tell w (fileno g) \<noteq> comm3_size \<and>
          \<not> tell w (fileno g) < size_cutoff (V (inode_vol_id (file_inode g)))))"
    and deleted: "\<And>g. deleted g =
        (fileno g \<notin> set in_use \<and>
         st_ino (fstat w (fileno g)) = ino (file_inode g) \<and>
         st_dev (fstat w (fileno g)) = vol_st_dev (V (inode_vol_id (file_inode g))) \<and>
         tell w (fileno g) \<noteq> comm3_size \<and>
         tell w (fileno g) < size_cutoff (V (inode_vol_id (file_inode g))))"
    and V: "volumes (pending (sess_of st)) = V"
  shows "hash_file w comm3_size in_use (by_hash, st) g =
     (if deferred g then (by_hash, skip (file_inode g) st)
      else if deleted g then (by_hash, st\<lparr>sess_of := delete_inode (sess_of st) (file_inode g)\<rparr>)
      else (by_hash_append (sha1 w (fileno g)) g by_hash, st))"
  using V by (auto simp: hash_file_def Let_def deferred deleted inode_vol_def)

lemma foldl_hash_file_exact:
  fixes w :: world
  assumes deferred: "\<And>g. deferred g =
        (fileno g \<in> set in_use \<or>
         st_ino (fstat w (fileno g)) \<noteq> ino (file_inode g) \<or>
         st_dev (fstat w (fileno g)) \<noteq> vol_st_dev (V (inode_vol_id (file_inode g))) \<or>
         (tell w (fileno g) \<noteq> comm3_size \<and>
          \<not> tell w (fileno g) < size_cutoff (V (inode_vol_id (file_inode g)))))"
    and deleted: "\<And>g. deleted g =
        (fileno g \<notin> set in_use \<and>
         st_ino (fstat w (fileno g)) = ino (file_inode g) \<and>
         st_dev (fstat w (fileno g)) = vol_st_dev (V (inode_vol_id (file_inode g))) \<and>
         tell w (fileno g) \<noteq> comm3_size \<and>
         tell w (fileno g) < size_cutoff (V (inode_vol_id (file_inode g))))"
  shows "volumes (pending (sess_of st)) = V \<Longrightarrow>
     foldl (hash_file w comm3_size in_use) (by_hash, st) files = (by_hash', st') \<Longrightarrow>
       skipped st' = skipped st @ map file_inode (filter deferred files) \<and>
       inode_table (pending (sess_of st')) =
         filter (\<lambda>row. \<not> list_ex (\<lambda>g. deleted g \<and>
                    has_key (inode_vol_id (file_inode g)) (ino (file_inode g)) row) files)
           (inode_table (pending (sess_of st))) \<and>
       volumes (pending (sess_of st')) = V \<and>
       cloned st' = cloned st \<and>
       set (concat (map snd by_hash')) =
         set (concat (map snd by_hash)) \<union> {g \<in> set files. \<not> deferred g \<and> \<not> deleted g}"
proof (induction files arbitrary: by_hash st)
  case Nil
  then show ?case by simp
next
  case (Cons g rest)
  note step = hash_file_step [of deferred in_use w V comm3_size deleted st by_hash g,
      OF deferred deleted Cons.prems(1)]
  have excl: "\<not> (deferred g \<and> deleted g)"
    by (auto simp: deferred deleted)
  show ?case
  proof (cases "deferred g")
    case True
    with Cons.prems(2) step have r:
      "foldl (hash_file w comm3_size in_use) (by_hash, skip (file_inode g) st) rest = (by_hash', st')"
      by simp
    have v: "volumes (pending (sess_of (skip (file_inode g) st))) = V"
      using Cons.prems(1) by (simp add: skip_fields)
    from Cons.IH [OF v r] True excl show ?thesis
      by (auto simp: skip_fields)
  next
    case False
    note nd = False
    show ?thesis
    proof (cases "deleted g")
      case True
      let ?st1 = "st\<lparr>sess_of := delete_inode (sess_of st) (file_inode g)\<rparr>"
      from Cons.prems(2) step nd True have r:
        "foldl (hash_file w comm3_size in_use) (by_hash, ?st1) rest = (by_hash', st')"
        by simp
      have v: "volumes (pending (sess_of ?st1)) = V"
        using Cons.prems(1) by (simp add: delete_inode_frame)
      have t: "inode_table (pending (delete_inode (sess_of st) (file_inode g))) =
          filter (\<lambda>row. \<not> has_key (inode_vol_id (file_inode g)) (ino (file_inode g)) row)
            (inode_table (pending (sess_of st)))"
        by (simp add: delete_inode_def)
      from Cons.IH [OF v r] nd True show ?thesis
        by (auto simp: t)
    next
      case False
      from Cons.prems(2) step nd False have r:
        "foldl (hash_file w comm3_size in_use)
           (by_hash_append (sha1 w (fileno g)) g by_hash, st) rest = (by_hash', st')"
        by simp
      from Cons.IH [OF Cons.prems(1) r] have
        i1: "skipped st' = skipped st @ map file_inode (filter deferred rest)" and
        i2: "inode_table (pending (sess_of st')) =
          filter (\<lambda>row. \<not> list_ex (\<lambda>g. deleted g \<and>
                     has_key (inode_vol_id (file_inode g)) (ino (file_inode g)) row) rest)
            (inode_table (pending (sess_of st)))" and
        i3: "volumes (pending (sess_of st')) = V" and
        i4: "cloned st' = cloned st" and
        i5: "set (concat (map snd by_hash')) =
          set (concat (map snd (by_hash_append (sha1 w (fileno g)) g by_hash))) \<union>
          {g \<in> set rest. \<not> deferred g \<and> \<not> deleted g}"
        by blast+
      from i1 nd have c1: "skipped st' = skipped st @ map file_inode (filter deferred (g # rest))"
        by simp
      from i2 False have c2: "inode_table (pending (sess_of st')) =
          filter (\<lambda>row. \<not> list_ex (\<lambda>g. deleted g \<and>
                     has_key (inode_vol_id (file_inode g)) (ino (file_inode g)) row) (g # rest))
            (inode_table (pending (sess_of st)))"
        by simp
      have c5: "set (concat (map snd by_hash')) =
          set (concat (map snd by_hash)) \<union> {x \<in> set (g # rest). \<not> deferred x \<and> \<not> deleted x}"
        unfolding i5 by_hash_append_files using nd False by (rule insert_bucket)
      from c1 c2 i3 i4 c5 show ?thesis by blast
    qed
  qed
qed

subsection \<open>Cloning a bucket\<close>

lemma clone_dfiles_char:
  "clone_dfiles w sfile dfiles acc st = (out, succ, st') \<Longrightarrow>
     \<exists>n\<le>length dfiles.
       succ = acc @ filter (\<lambda>d. clone_data w (fileno d) (fileno sfile)) (take n dfiles) \<and>
       st' = st\<lparr>cloned := cloned st @
               map (\<lambda>d. (d, sfile))
                 (filter (\<lambda>d. clone_data w (fileno d) (fileno sfile)) (take n dfiles))\<rparr> \<and>
       ((out = Returned \<and> n = length dfiles) \<or>
        (out = Raised AssertionError \<and> n < length dfiles \<and>
         \<not> cmp_files w (fileno sfile) (fileno (dfiles ! n))))"
proof (induction dfiles arbitrary: acc st)
  case Nil
  then show ?case by simp
next
  case (Cons d rest)
  show ?case
  proof (cases "cmp_files w (fileno sfile) (fileno d)")
    case False
    with Cons.prems have "out = Raised AssertionError" "succ = acc" "st' = st"
      by simp_all
    with False show ?thesis
      by (intro exI [of _ 0]) simp
  next
    case True
    note cmp = True
    show ?thesis
    proof (cases "clone_data w (fileno d) (fileno sfile)")
      case True
      with cmp Cons.prems have
        "clone_dfiles w sfile rest (acc @ [d]) (st\<lparr>cloned := cloned st @ [(d, sfile)]\<rparr>) =
           (out, succ, st')"
        by simp
      from Cons.IH [OF this] obtain n where n: "n \<le> length rest"
        "succ = (acc @ [d]) @ filter (\<lambda>d. clone_data w (fileno d) (fileno sfile)) (take n rest)"
        "st' = st\<lparr>cloned := cloned st @ [(d, sfile)]\<rparr>\<lparr>cloned :=
                 cloned (st\<lparr>cloned := cloned st @ [(d, sfile)]\<rparr>) @
                 map (\<lambda>d. (d, sfile))
                   (filter (\<lambda>d. clone_data w (fileno d) (fileno sfile)) (take n rest))\<rparr>"
        "(out = Returned \<and> n = length rest) \<or>
         (out = Raised AssertionError \<and> n < length rest \<and>
          \<not> cmp_files w (fileno sfile) (fileno (rest ! n)))"
        by blast
      with True show ?thesis
        by (intro exI [of _ "Suc n"]) auto
    next
      case False
      with cmp Cons.prems have "clone_dfiles w sfile rest acc st = (out, succ, st')"
        by simp
      from Cons.IH [OF this] obtain n where n: "n \<le> length rest"
        "succ = acc @ filter (\<lambda>d. clone_data w (fileno d) (fileno sfile)) (take n rest)"
        "st' = st\<lparr>cloned := cloned st @
                 map (\<lambda>d. (d, sfile))
                   (filter (\<lambda>d. clone_data w (fileno d) (fileno sfile)) (take n rest))\<rparr>"
        "(out = Returned \<and> n = length rest) \<or>
         (out = Raised AssertionError \<and> n < length rest \<and>
          \<not> cmp_files w (fileno sfile) (fileno (rest ! n)))"
        by blast
      with False show ?thesis
        by (intro exI [of _ "Suc n"]) auto
    qed
  qed
qed

lemma clone_dfiles_exact:
  "clone_dfiles w sfile dfiles acc st =
     (if list_all (\<lambda>d. cmp_files w (fileno sfile) (fileno d)) dfiles
      then Returned else Raised AssertionError,
      acc @ filter (\<lambda>d. clone_data w (fileno d) (fileno sfile))
              (takeWhile (\<lambda>d. cmp_files w (fileno sfile) (fileno d)) dfiles),
      st\<lparr>cloned := cloned st @
          map (\<lambda>d. (d, sfile))
            (filter (\<lambda>d. clone_data w (fileno d) (fileno sfile))
               (takeWhile (\<lambda>d. cmp_files w (fileno sfile) (fileno d)) dfiles))\<rparr>)"
  by (induction dfiles arbitrary: acc st) simp_all

lemma clone_fileset_frame:
  assumes "clone_fileset w fs comm3_size fileset st = (out, st')"
  shows "skipped st' = skipped st \<and>
         inode_table (pending (sess_of st')) = inode_table (pending (sess_of st)) \<and>
         (\<forall>p\<in>set (cloned st'). p \<in> set (cloned st) \<or> (fst p \<in> set fileset \<and> snd p \<in> set fileset))"
proof (cases fileset)
  case Nil
  with assms show ?thesis by (simp add: clone_fileset_def)
next
  case (Cons sfile dfiles)
  show ?thesis
  proof (cases "length fileset < 2")
    case True
    with assms Cons show ?thesis by (simp add: clone_fileset_def)
  next
    case False
    obtain o1 succ st1 where c: "clone_dfiles w sfile dfiles [] st = (o1, succ, st1)"
      by (cases "clone_dfiles w sfile dfiles [] st") auto
    from clone_dfiles_char [OF c] obtain n where
      st1: "st1 = st\<lparr>cloned := cloned st @ map (\<lambda>d. (d, sfile))
                  (filter (\<lambda>d. clone_data w (fileno d) (fileno sfile)) (take n dfiles))\<rparr>"
      by auto
    have sub: "set (filter (\<lambda>d. clone_data w (fileno d) (fileno sfile)) (take n dfiles)) \<subseteq> set dfiles"
      using set_take_subset [of n dfiles] by auto
    have a: "skipped st1 = skipped st \<and>
         inode_table (pending (sess_of st1)) = inode_table (pending (sess_of st)) \<and>
         (\<forall>p\<in>set (cloned st1). p \<in> set (cloned st) \<or> (fst p \<in> set fileset \<and> snd p \<in> set fileset))"
      using sub by (auto simp: st1 Cons)
    from assms Cons False c have
      "st' = st1 \<or> (\<exists>evt. st' = st1\<lparr>sess_of := commit (add_event (sess_of st1) evt)\<rparr>)"
      by (auto simp: clone_fileset_def Let_def split: outcome.splits if_splits)
    with a show ?thesis
      by (auto simp: commit_def add_event_def)
  qed
qed

lemma clone_filesets_frame:
  "clone_filesets w fs comm3_size filesets st = (out, st') \<Longrightarrow>
     skipped st' = skipped st \<and>
     inode_table (pending (sess_of st')) = inode_table (pending (sess_of st)) \<and>
     (\<forall>p\<in>set (cloned st'). p \<in> set (cloned st) \<or>
        (fst p \<in> set (concat filesets) \<and> snd p \<in> set (concat filesets)))"
proof (induction filesets arbitrary: st)
  case Nil
  then show ?case by simp
next
  case (Cons fileset rest)
  obtain o1 s1 where step: "clone_fileset w fs comm3_size fileset st = (o1, s1)"
    by (cases "clone_fileset w fs comm3_size fileset st") auto
  note fr = clone_fileset_frame [OF step]
  show ?case
  proof (cases o1)
    case (Raised e)
    with Cons.prems step have "st' = s1" by simp
    with fr show ?thesis by auto
  next
    case Returned
    with Cons.prems step have "clone_filesets w fs comm3_size rest s1 = (out, st')" by simp
    from Cons.IH [OF this] fr show ?thesis
      by (simp add: Ball_def) blast
  qed
qed

lemma big_group_count: "inode_count big_group = 5000"
  by (simp add: inode_count_def big_group_def)

lemma mixed_group_count: "inode_count mixed_group = 5001"
  by (simp add: inode_count_def mixed_group_def big_group_def)

subsection \<open>The claims about the cloner\<close>

text \<open>
  C2, as stated, fails.  In the spec's scenario (5000 candidates, soft limit
  1024, hard limit 2048, one volume) the group is left with the process limit
  still at (1024, 2048): nothing raises the soft limit to the hard one.  And a
  candidate whose \<^verbatim>\<open>has_updates\<close> is false is not put on \<^verbatim>\<open>skipped\<close>; the
  session is not touched.
\<close>

theorem soft_limit_not_raised:
  "rlimit_ofile (snd (dedup_comm3 world_ok 1 (7 + length [vol_kept]) big_group st_limits)) = (1024, 2048) \<and>
   ofile_soft (snd (dedup_comm3 world_ok 1 (7 + length [vol_kept]) big_group st_limits)) = 1024 \<and>
   ofile_hard st_limits = 2048 \<and>
   inode_quiet \<in> set (comm_inodes mixed_group) \<and>
   \<not> has_updates inode_quiet \<and>
   inode_quiet \<notin> set (skipped (snd (dedup_comm3 world_ok 1 (7 + length [vol_kept]) mixed_group st_limits))) \<and>
   sess_of (snd (dedup_comm3 world_ok 1 (7 + length [vol_kept]) mixed_group st_limits)) = sess_of st_limits"
  by (simp add: dedup_comm3_def ofile_budget_def Let_def big_group_count mixed_group_count)
    (simp add: st_limits_def mixed_group_def inode_quiet_def)

text \<open>
  C2, amended: with \<open>ofile_req = 2 * count3 + (7 + number of volumes)\<close>: if
  \<open>ofile_req\<close> is above the soft limit and at most the hard limit, the soft
  limit is set to \<open>ofile_req\<close> and the group is processed; if it is above
  both, no limit changes, no file is opened, the session is unchanged, and the
  candidates whose \<^verbatim>\<open>has_updates\<close> is true are appended to \<^verbatim>\<open>skipped\<close>;
  if it is at most the soft limit the group is processed as it is.
\<close>

theorem ofile_budget_cases:
  "let ofile_req = 2 * inode_count comm3 + (7 + length volset)
   in (ofile_soft st < ofile_req \<and> ofile_req \<le> ofile_hard st \<longrightarrow>
         dedup_comm3 w fs (7 + length volset) comm3 st =
           clone_group w fs comm3
             (st\<lparr>rlimit_ofile := (ofile_req, ofile_hard st), ofile_soft := ofile_req\<rparr>)) \<and>
      (ofile_soft st < ofile_req \<and> ofile_hard st < ofile_req \<longrightarrow>
         dedup_comm3 w fs (7 + length volset) comm3 st =
           (Returned, st\<lparr>skipped := skipped st @ filter has_updates (comm_inodes comm3)\<rparr>)) \<and>
      (ofile_req \<le> ofile_soft st \<longrightarrow>
         dedup_comm3 w fs (7 + length volset) comm3 st = clone_group w fs comm3 st)"
  by (simp add: dedup_comm3_def ofile_budget_def Let_def)

theorem ofile_budget_cases_witness:
  "rw_opened (snd (dedup_comm3 world_ok 1 (7 + length [vol_kept]) big_group st_limits)) = [] \<and>
   length (skipped (snd (dedup_comm3 world_ok 1 (7 + length [vol_kept]) big_group st_limits))) = 5000 \<and>
   dedup_comm3 world_ok 1 (7 + length [vol_kept]) two_group st_tight =
     clone_group world_ok 1 two_group (st_tight\<lparr>rlimit_ofile := (12, 2048), ofile_soft := 12\<rparr>)"
proof -
  from ofile_budget_cases [of big_group "[vol_kept]" st_limits world_ok 1]
  have big: "dedup_comm3 world_ok 1 (7 + length [vol_kept]) big_group st_limits =
      (Returned, st_limits\<lparr>skipped := skipped st_limits @ filter has_updates (comm_inodes big_group)\<rparr>)"
    by (simp add: Let_def big_group_count) (simp add: st_limits_def)
  have 1: "rw_opened (snd (dedup_comm3 world_ok 1 (7 + length [vol_kept]) big_group st_limits)) = []"
    unfolding big by (simp add: st_limits_def)
  have 2: "length (skipped (snd (dedup_comm3 world_ok 1 (7 + length [vol_kept]) big_group st_limits))) = 5000"
    unfolding big by (simp add: st_limits_def big_group_def inode_a_def)
  from ofile_budget_cases [of two_group "[vol_kept]" st_tight world_ok 1]
  have 3: "dedup_comm3 world_ok 1 (7 + length [vol_kept]) two_group st_tight =
     clone_group world_ok 1 two_group (st_tight\<lparr>rlimit_ofile := (12, 2048), ofile_soft := 12\<rparr>)"
    by (simp add: Let_def inode_count_def two_group_def) (simp add: st_tight_def st_limits_def)
  from 1 2 3 show ?thesis by blast
qed

text \<open>
  C3, as stated, fails: when the comparison of a later destination fails,
  \<^verbatim>\<open>assert False\<close> leaves the bucket after \<^verbatim>\<open>clone_data\<close> has returned true
  for an earlier one, and no event is added.
\<close>

theorem clone_without_event:
  "clone_data world_differ (fileno file_b) (fileno file_a) \<and>
   fst (clone_fileset world_differ 1 16777216 [file_a, file_b, file_c] st_limits) = Raised AssertionError \<and>
   cloned (snd (clone_fileset world_differ 1 16777216 [file_a, file_b, file_c] st_limits)) =
     [(file_b, file_a)] \<and>
   dedup_events (pending (sess_of
     (snd (clone_fileset world_differ 1 16777216 [file_a, file_b, file_c] st_limits)))) = []"
  by (simp add: clone_fileset_def world_differ_def world_ok_def file_a_def file_b_def file_c_def
      st_limits_def sess_dups_def catalog_dups_def)

text \<open>
  C3, amended: for a digest bucket \<open>sfile # dfiles\<close>, the destinations
  compared are those before the first whose comparison with the source fails;
  the bucket returns when none fails and raises \<^verbatim>\<open>AssertionError\<close> otherwise.
  The clones made are those of the compared destinations for which
  \<^verbatim>\<open>clone_data\<close> returned true.  An event is added, and committed, exactly
  when no comparison failed and one of those calls returned true; it holds the
  file system, the group's size and the time of \<^verbatim>\<open>system_now\<close>, and its
  inode rows are the source's, first, and those of the successful destinations,
  so at least two.  When a comparison fails no event is added, whatever was
  cloned before.
\<close>

theorem clone_fileset_event:
  "let compared = takeWhile (\<lambda>d. cmp_files w (fileno sfile) (fileno d)) dfiles;
       dfiles_successful = filter (\<lambda>d. clone_data w (fileno d) (fileno sfile)) compared;
       finished = list_all (\<lambda>d. cmp_files w (fileno sfile) (fileno d)) dfiles;
       out = fst (clone_fileset w fs comm3_size (sfile # dfiles) st);
       st' = snd (clone_fileset w fs comm3_size (sfile # dfiles) st)
   in out = (if finished then Returned else Raised AssertionError) \<and>
      cloned st' = cloned st @ map (\<lambda>d. (d, sfile)) dfiles_successful \<and>
      dedup_events (pending (sess_of st')) =
        dedup_events (pending (sess_of st)) @
        (if finished \<and> dfiles_successful \<noteq> [] then
           [\<lparr>event_fs_id = fs, item_size = comm3_size, created = system_now w,
             event_inodes = event_inode sfile # map event_inode dfiles_successful\<rparr>]
         else []) \<and>
      dedup_events (persisted (sess_of st')) =
        (if finished \<and> dfiles_successful \<noteq> [] then dedup_events (pending (sess_of st'))
         else dedup_events (persisted (sess_of st))) \<and>
      (dfiles_successful \<noteq> [] \<longrightarrow>
         2 \<le> length (event_inode sfile # map event_inode dfiles_successful))"
proof (cases dfiles)
  case Nil
  then show ?thesis by (simp add: clone_fileset_def)
next
  case (Cons d rest)
  then have len: "\<not> length (sfile # dfiles) < 2" by simp
  show ?thesis
    unfolding Let_def clone_fileset_def list.case if_not_P [OF len] clone_dfiles_exact
    by (simp add: add_event_def commit_def Suc_le_eq)
qed

theorem clone_fileset_event_witness:
  "dedup_events (pending (sess_of (snd (clone_fileset world_ok 1 16777216 [file_a, file_b] st_limits)))) =
     [\<lparr>event_fs_id = 1, item_size = 16777216, created = 1000, event_inodes = [(257, 1), (258, 1)]\<rparr>] \<and>
   fst (clone_fileset world_differ 1 16777216 [file_a, file_b, file_c] st_limits) = Raised AssertionError \<and>
   dedup_events (pending (sess_of
     (snd (clone_fileset world_differ 1 16777216 [file_a, file_b, file_c] st_limits)))) = []"
proof -
  from clone_fileset_event [of world_ok file_a "[file_b]" 1 16777216 st_limits]
  have 1: "dedup_events (pending (sess_of (snd (clone_fileset world_ok 1 16777216 [file_a, file_b] st_limits)))) =
     [\<lparr>event_fs_id = 1, item_size = 16777216, created = 1000, event_inodes = [(257, 1), (258, 1)]\<rparr>]"
    by (simp add: Let_def world_ok_def event_inode_def file_a_def file_b_def inode_a_def inode_b_def
        st_limits_def sess_dups_def catalog_dups_def)
  from clone_fileset_event [of world_differ file_a "[file_b, file_c]" 1 16777216 st_limits]
  have 2: "fst (clone_fileset world_differ 1 16777216 [file_a, file_b, file_c] st_limits) = Raised AssertionError"
    and 3: "dedup_events (pending (sess_of
     (snd (clone_fileset world_differ 1 16777216 [file_a, file_b, file_c] st_limits)))) = []"
    by (simp_all add: Let_def world_differ_def world_ok_def file_b_def file_c_def
        st_limits_def sess_dups_def catalog_dups_def)
  from 1 2 3 show ?thesis by blast
qed

text \<open>
  C4: a file that is hashed (it is not in write use elsewhere) and whose
  \<^verbatim>\<open>fstat\<close> disagrees with its inode record in \<^verbatim>\<open>st_ino\<close> or \<^verbatim>\<open>st_dev\<close>,
  or whose length is not the group's size, is in no bucket of \<^verbatim>\<open>by_hash\<close> and
  in no clone the group makes.  When only the length differs and is below the
  volume's cutoff, its inode row is deleted; otherwise its inode is appended to
  \<^verbatim>\<open>skipped\<close> and its row is kept (unless the group lists the same inode a
  second time with a file that is deleted).  For the whole group: what is
  appended to \<^verbatim>\<open>skipped\<close> are the inodes of the deferred files, in order, and
  the rows that leave the inode table are those of the deleted files.
\<close>

theorem hashed_mismatch_not_cloned:
  assumes "hash_files w comm3_size files st = (by_hash, st1)"
    and "clone_filesets w fs comm3_size (map snd by_hash) st1 = (out, st')"
    and "f \<in> set files"
    and "fileno f \<notin> set (fds_in_write_use w (map fileno files))"
    and "st_ino (fstat w (fileno f)) \<noteq> ino (file_inode f) \<or>
         st_dev (fstat w (fileno f)) \<noteq> vol_st_dev (inode_vol st (file_inode f)) \<or>
         tell w (fileno f) \<noteq> comm3_size"
  shows "let in_use = fds_in_write_use w (map fileno files);
             ids_ok = (\<lambda>g. st_ino (fstat w (fileno g)) = ino (file_inode g) \<and>
                           st_dev (fstat w (fileno g)) = vol_st_dev (inode_vol st (file_inode g)));
             deleted = (\<lambda>g. fileno g \<notin> set in_use \<and> ids_ok g \<and>
                            tell w (fileno g) \<noteq> comm3_size \<and>
                            tell w (fileno g) < size_cutoff (inode_vol st (file_inode g)));
             deferred = (\<lambda>g. fileno g \<in> set in_use \<or> \<not> ids_ok g \<or>
                             (tell w (fileno g) \<noteq> comm3_size \<and>
                              \<not> tell w (fileno g) < size_cutoff (inode_vol st (file_inode g))))
         in f \<notin> set (concat (map snd by_hash)) \<and>
            (\<forall>p\<in>set (cloned st'). p \<in> set (cloned st) \<or> (fst p \<noteq> f \<and> snd p \<noteq> f)) \<and>
            skipped st' = skipped st @ map file_inode (filter deferred files) \<and>
            inode_table (pending (sess_of st')) =
              filter (\<lambda>row. \<not> list_ex (\<lambda>g. deleted g \<and>
                         has_key (inode_vol_id (file_inode g)) (ino (file_inode g)) row) files)
                (inode_table (pending (sess_of st))) \<and>
            (if ids_ok f \<and> tell w (fileno f) < size_cutoff (inode_vol st (file_inode f))
             then find_inode (sess_of st') (inode_vol_id (file_inode f)) (ino (file_inode f)) = None
             else (\<exists>before after. skipped st' = skipped st @ before @ file_inode f # after) \<and>
                  (\<not> list_ex (\<lambda>g. deleted g \<and>
                       has_key (inode_vol_id (file_inode g)) (ino (file_inode g)) (file_inode f)) files \<longrightarrow>
                   find_inode (sess_of st') (inode_vol_id (file_inode f)) (ino (file_inode f)) =
                   find_inode (sess_of st) (inode_vol_id (file_inode f)) (ino (file_inode f))))"
proof -
  define V where "V = volumes (pending (sess_of st))"
  define in_use where "in_use = fds_in_write_use w (map fileno files)"
  define ids_ok where
    "ids_ok = (\<lambda>g::afile. st_ino (fstat w (fileno g)) = ino (file_inode g) \<and>
                 st_dev (fstat w (fileno g)) = vol_st_dev (inode_vol st (file_inode g)))"
  define deleted where
    "deleted = (\<lambda>g::afile. fileno g \<notin> set in_use \<and> ids_ok g \<and>
                  tell w (fileno g) \<noteq> comm3_size \<and>
                  tell w (fileno g) < size_cutoff (inode_vol st (file_inode g)))"
  define deferred where
    "deferred = (\<lambda>g::afile. fileno g \<in> set in_use \<or> \<not> ids_ok g \<or>
                   (tell w (fileno g) \<noteq> comm3_size \<and>
                    \<not> tell w (fileno g) < size_cutoff (inode_vol st (file_inode g))))"
  note defs = ids_ok_def deleted_def deferred_def
  from assms(1) have fold:
    "foldl (hash_file w comm3_size in_use) ([], st) files = (by_hash, st1)"
    by (simp add: hash_files_def in_use_def)
  have ex: "skipped st1 = skipped st @ map file_inode (filter deferred files) \<and>
       inode_table (pending (sess_of st1)) =
         filter (\<lambda>row. \<not> list_ex (\<lambda>g. deleted g \<and>
                    has_key (inode_vol_id (file_inode g)) (ino (file_inode g)) row) files)
           (inode_table (pending (sess_of st))) \<and>
       volumes (pending (sess_of st1)) = V \<and>
       cloned st1 = cloned st \<and>
       set (concat (map snd by_hash)) = {g \<in> set files. \<not> deferred g \<and> \<not> deleted g}"
  proof -
    have d1: "deferred g =
        (fileno g \<in> set in_use \<or>
         st_ino (fstat w (fileno g)) \<noteq> ino (file_inode g) \<or>
         st_dev (fstat w (fileno g)) \<noteq> vol_st_dev (V (inode_vol_id (file_inode g))) \<or>
         (tell w (fileno g) \<noteq> comm3_size \<and>
          \<not> tell w (fileno g) < size_cutoff (V (inode_vol_id (file_inode g)))))" for g
      by (auto simp: defs inode_vol_def V_def)
    have d2: "deleted g =
        (fileno g \<notin> set in_use \<and>
         st_ino (fstat w (fileno g)) = ino (file_inode g) \<and>
         st_dev (fstat w (fileno g)) = vol_st_dev (V (inode_vol_id (file_inode g))) \<and>
         tell w (fileno g) \<noteq> comm3_size \<and>
         tell w (fileno g) < size_cutoff (V (inode_vol_id (file_inode g))))" for g
      by (auto simp: defs inode_vol_def V_def)
    have v: "volumes (pending (sess_of st)) = V"
      by (simp add: V_def)
    from foldl_hash_file_exact [where deferred = deferred and deleted = deleted, OF d1 d2 v fold]
    show ?thesis by simp
  qed
  note fr = clone_filesets_frame [OF assms(2)]
  have hashed: "fileno f \<notin> set in_use"
    using assms(4) by (simp add: in_use_def)
  have bad: "deferred f \<or> deleted f"
    using assms(5) hashed by (auto simp: defs)
  have bucket: "f \<notin> set (concat (map snd by_hash))"
    using ex bad by auto
  have clones: "\<forall>p\<in>set (cloned st'). p \<in> set (cloned st) \<or> (fst p \<noteq> f \<and> snd p \<noteq> f)"
  proof
    fix p assume "p \<in> set (cloned st')"
    with fr have "p \<in> set (cloned st1) \<or>
        (fst p \<in> set (concat (map snd by_hash)) \<and> snd p \<in> set (concat (map snd by_hash)))"
      by blast
    with ex bucket show "p \<in> set (cloned st) \<or> (fst p \<noteq> f \<and> snd p \<noteq> f)"
      by auto
  qed
  from ex fr have sk: "skipped st' = skipped st @ map file_inode (filter deferred files)"
    by simp
  from ex fr have tb: "inode_table (pending (sess_of st')) =
         filter (\<lambda>row. \<not> list_ex (\<lambda>g. deleted g \<and>
                    has_key (inode_vol_id (file_inode g)) (ino (file_inode g)) row) files)
           (inode_table (pending (sess_of st)))"
    by simp
  have gone: "find_inode (sess_of st') (inode_vol_id (file_inode f)) (ino (file_inode f)) = None"
    if "deleted f"
  proof -
    have "find (has_key (inode_vol_id (file_inode f)) (ino (file_inode f)))
        (filter (\<lambda>row. \<not> list_ex (\<lambda>g. deleted g \<and>
                    has_key (inode_vol_id (file_inode g)) (ino (file_inode g)) row) files)
           (inode_table (pending (sess_of st)))) = None"
      using that assms(3) by (intro find_filter_gone) (auto simp: list_ex_iff)
    then show ?thesis by (simp add: find_inode_def tb)
  qed
  have appended: "\<exists>before after. skipped st' = skipped st @ before @ file_inode f # after"
    if "deferred f"
  proof -
    from that assms(3) have "file_inode f \<in> set (map file_inode (filter deferred files))"
      by auto
    then obtain before after where
      "map file_inode (filter deferred files) = before @ file_inode f # after"
      by (auto dest: split_list)
    with sk show ?thesis by auto
  qed
  have kept: "find_inode (sess_of st') (inode_vol_id (file_inode f)) (ino (file_inode f)) =
      find_inode (sess_of st) (inode_vol_id (file_inode f)) (ino (file_inode f))"
    if n: "\<not> list_ex (\<lambda>g. deleted g \<and>
          has_key (inode_vol_id (file_inode g)) (ino (file_inode g)) (file_inode f)) files"
  proof -
    have "\<not> list_ex (\<lambda>g. deleted g \<and>
          has_key (inode_vol_id (file_inode g)) (ino (file_inode g)) row) files"
      if k: "has_key (inode_vol_id (file_inode f)) (ino (file_inode f)) row" for row
      using n k by (auto simp: list_ex_iff has_key_def)
    then have "find (has_key (inode_vol_id (file_inode f)) (ino (file_inode f)))
        (filter (\<lambda>row. \<not> list_ex (\<lambda>g. deleted g \<and>
                    has_key (inode_vol_id (file_inode g)) (ino (file_inode g)) row) files)
           (inode_table (pending (sess_of st)))) =
        find (has_key (inode_vol_id (file_inode f)) (ino (file_inode f)))
          (inode_table (pending (sess_of st)))"
      by (intro find_filter_same)
    then show ?thesis by (simp add: find_inode_def tb)
  qed
  have branch: "if ids_ok f \<and> tell w (fileno f) < size_cutoff (inode_vol st (file_inode f))
     then find_inode (sess_of st') (inode_vol_id (file_inode f)) (ino (file_inode f)) = None
     else (\<exists>before after. skipped st' = skipped st @ before @ file_inode f # after) \<and>
          (\<not> list_ex (\<lambda>g. deleted g \<and>
               has_key (inode_vol_id (file_inode g)) (ino (file_inode g)) (file_inode f)) files \<longrightarrow>
           find_inode (sess_of st') (inode_vol_id (file_inode f)) (ino (file_inode f)) =
           find_inode (sess_of st) (inode_vol_id (file_inode f)) (ino (file_inode f)))"
  proof (cases "ids_ok f \<and> tell w (fileno f) < size_cutoff (inode_vol st (file_inode f))")
    case True
    with assms(5) hashed have "deleted f" by (auto simp: defs)
    from gone [OF this] True show ?thesis by simp
  next
    case False
    with assms(5) hashed have "deferred f" by (auto simp: defs)
    from appended [OF this] kept False show ?thesis by auto
  qed
  from bucket clones sk tb branch have
    "f \<notin> set (concat (map snd by_hash)) \<and>
     (\<forall>p\<in>set (cloned st'). p \<in> set (cloned st) \<or> (fst p \<noteq> f \<and> snd p \<noteq> f)) \<and>
     skipped st' = skipped st @ map file_inode (filter deferred files) \<and>
     inode_table (pending (sess_of st')) =
       filter (\<lambda>row. \<not> list_ex (\<lambda>g. deleted g \<and>
                  has_key (inode_vol_id (file_inode g)) (ino (file_inode g)) row) files)
         (inode_table (pending (sess_of st))) \<and>
     (if ids_ok f \<and> tell w (fileno f) < size_cutoff (inode_vol st (file_inode f))
      then find_inode (sess_of st') (inode_vol_id (file_inode f)) (ino (file_inode f)) = None
      else (\<exists>before after. skipped st' = skipped st @ before @ file_inode f # after) \<and>
           (\<not> list_ex (\<lambda>g. deleted g \<and>
                has_key (inode_vol_id (file_inode g)) (ino (file_inode g)) (file_inode f)) files \<longrightarrow>
            find_inode (sess_of st') (inode_vol_id (file_inode f)) (ino (file_inode f)) =
            find_inode (sess_of st) (inode_vol_id (file_inode f)) (ino (file_inode f))))"
    by blast
  then show ?thesis
    unfolding Let_def
    unfolding deferred_def deleted_def ids_ok_def in_use_def .
qed

theorem hashed_mismatch_not_cloned_witness:
  "skipped (snd (hash_and_clone world_raced 1 16777216 [file_a, file_b] st_limits)) =
     [inode_a, inode_b] \<and>
   inode_table (pending (sess_of (snd (hash_and_clone world_raced 1 16777216 [file_a, file_b] st_limits)))) =
     [inode_a, inode_b] \<and>
   (file_b, file_a) \<notin> set (cloned (snd (hash_and_clone world_raced 1 16777216 [file_a, file_b] st_limits))) \<and>
   find_inode (sess_of (snd (hash_and_clone world_truncated 1 16777216 [file_a, file_b] st_limits)))
     1 257 = None"
proof -
  have m: "file_a \<in> set [file_a, file_b]" by simp
  have 1: "skipped (snd (hash_and_clone world_raced 1 16777216 [file_a, file_b] st_limits)) =
       [inode_a, inode_b] \<and>
     inode_table (pending (sess_of (snd (hash_and_clone world_raced 1 16777216 [file_a, file_b] st_limits)))) =
       [inode_a, inode_b] \<and>
     (file_b, file_a) \<notin> set (cloned (snd (hash_and_clone world_raced 1 16777216 [file_a, file_b] st_limits)))"
  proof -
    obtain by_hash st1 where
      h: "hash_files world_raced 16777216 [file_a, file_b] st_limits = (by_hash, st1)"
      by (cases "hash_files world_raced 16777216 [file_a, file_b] st_limits") auto
    obtain out st' where
      c: "clone_filesets world_raced 1 16777216 (map snd by_hash) st1 = (out, st')"
      by (cases "clone_filesets world_raced 1 16777216 (map snd by_hash) st1") auto
    have r: "hash_and_clone world_raced 1 16777216 [file_a, file_b] st_limits = (out, st')"
      using c by (simp add: hash_and_clone_def h)
    have u: "fileno file_a \<notin> set (fds_in_write_use world_raced (map fileno [file_a, file_b]))"
      by (simp add: world_raced_def world_ok_def)
    have b: "st_ino (fstat world_raced (fileno file_a)) \<noteq> ino (file_inode file_a) \<or>
         st_dev (fstat world_raced (fileno file_a)) \<noteq>
           vol_st_dev (inode_vol st_limits (file_inode file_a)) \<or>
         tell world_raced (fileno file_a) \<noteq> 16777216"
      by (simp add: world_raced_def world_ok_def file_a_def inode_a_def)
    note t = hashed_mismatch_not_cloned [OF h c m u b, unfolded Let_def]
    from t have sk: "skipped st' = [inode_a, inode_b]"
      by (simp add: world_raced_def world_ok_def file_a_def file_b_def inode_a_def inode_b_def
          st_limits_def)
    from t have tb: "inode_table (pending (sess_of st')) = [inode_a, inode_b]"
      by (simp add: world_raced_def world_ok_def file_a_def file_b_def inode_a_def inode_b_def
          st_limits_def sess_dups_def catalog_dups_def)
    from t have "\<forall>p\<in>set (cloned st'). p \<in> set (cloned st_limits) \<or> (fst p \<noteq> file_a \<and> snd p \<noteq> file_a)"
      by blast
    moreover have "cloned st_limits = []"
      by (simp add: st_limits_def)
    ultimately have cl: "(file_b, file_a) \<notin> set (cloned st')"
      by auto
    from sk tb cl show ?thesis
      unfolding r by simp
  qed
  have 2: "find_inode (sess_of (snd (hash_and_clone world_truncated 1 16777216 [file_a, file_b] st_limits)))
     1 257 = None"
  proof -
    obtain by_hash st1 where
      h: "hash_files world_truncated 16777216 [file_a, file_b] st_limits = (by_hash, st1)"
      by (cases "hash_files world_truncated 16777216 [file_a, file_b] st_limits") auto
    obtain out st' where
      c: "clone_filesets world_truncated 1 16777216 (map snd by_hash) st1 = (out, st')"
      by (cases "clone_filesets world_truncated 1 16777216 (map snd by_hash) st1") auto
    have r: "hash_and_clone world_truncated 1 16777216 [file_a, file_b] st_limits = (out, st')"
      using c by (simp add: hash_and_clone_def h)
    have u: "fileno file_a \<notin> set (fds_in_write_use world_truncated (map fileno [file_a, file_b]))"
      by (simp add: world_truncated_def world_ok_def)
    have b: "st_ino (fstat world_truncated (fileno file_a)) \<noteq> ino (file_inode file_a) \<or>
         st_dev (fstat world_truncated (fileno file_a)) \<noteq>
           vol_st_dev (inode_vol st_limits (file_inode file_a)) \<or>
         tell world_truncated (fileno file_a) \<noteq> 16777216"
      by (simp add: world_truncated_def world_ok_def)
    have ids: "st_ino (fstat world_truncated (fileno file_a)) = ino (file_inode file_a) \<and>
         st_dev (fstat world_truncated (fileno file_a)) =
           vol_st_dev (inode_vol st_limits (file_inode file_a)) \<and>
         tell world_truncated (fileno file_a) < size_cutoff (inode_vol st_limits (file_inode file_a))"
      by (simp add: world_truncated_def world_ok_def file_a_def inode_a_def inode_vol_def
          st_limits_def sess_dups_def catalog_dups_def vol_kept_def)
    note t = hashed_mismatch_not_cloned [OF h c m u b, unfolded Let_def]
    from t ids have
      "find_inode (sess_of st') (inode_vol_id (file_inode file_a)) (ino (file_inode file_a)) = None"
      by simp
    then have "find_inode (sess_of st') 1 257 = None"
      by (simp add: file_a_def inode_a_def)
    then show ?thesis
      unfolding r by simp
  qed
  from 1 2 show ?thesis by blast
qed

text \<open>
  C5, as stated, fails: \<^verbatim>\<open>ENOENT\<close> from \<^verbatim>\<open>fopenat_rw\<close> puts the inode on
  \<^verbatim>\<open>skipped\<close> (line 512) and its row stays in the catalog.
\<close>

theorem open_enoent_defers:
  "fopenat_rw world_moved (inode_vol_id inode_a) ''f'' = Inl ENOENT \<and>
   open_candidates world_moved [inode_a] [] st_limits = (Returned, [], skip inode_a st_limits) \<and>
   skipped (skip inode_a st_limits) = [inode_a] \<and>
   find_inode (sess_of (skip inode_a st_limits)) (inode_vol_id inode_a) (ino inode_a) = Some inode_a"
  by (simp add: world_moved_def world_ok_def skip_def st_limits_def find_inode_def sess_dups_def
      catalog_dups_def has_key_def)

text \<open>
  C5, amended: the candidates of a group are opened in order up to the first
  that fails fatally: with an \<^verbatim>\<open>errno\<close> other than \<^verbatim>\<open>ENOENT\<close> from the path
  lookup, or other than \<^verbatim>\<open>ETXTBSY\<close>, \<^verbatim>\<open>EACCES\<close> and \<^verbatim>\<open>ENOENT\<close> from
  \<^verbatim>\<open>fopenat_rw\<close>.  Of the candidates reached, those whose lookup failed with
  \<^verbatim>\<open>ENOENT\<close> have their rows deleted, and no other row leaves the table;
  those whose \<^verbatim>\<open>fopenat_rw\<close> failed with \<^verbatim>\<open>ETXTBSY\<close>, \<^verbatim>\<open>EACCES\<close> or
  \<^verbatim>\<open>ENOENT\<close> are appended to \<^verbatim>\<open>skipped\<close>, in order, and keep their rows.
  With no fatal failure the loop returns; otherwise the group raises
  \<^verbatim>\<open>IOError\<close> with the \<^verbatim>\<open>errno\<close> of the first fatal failure.
\<close>

theorem open_failures:
  "let stale = (\<lambda>x. lookup_ino_path_one w (inode_vol_id x) (ino x) = Inl ENOENT);
       deferred = (\<lambda>x. \<exists>path e. lookup_ino_path_one w (inode_vol_id x) (ino x) = Inr path \<and>
                      fopenat_rw w (inode_vol_id x) path = Inl e \<and>
                      (e = ETXTBSY \<or> e = EACCES \<or> e = ENOENT));
       fatal = (\<lambda>x e. (lookup_ino_path_one w (inode_vol_id x) (ino x) = Inl e \<and> e \<noteq> ENOENT) \<or>
                  (\<exists>path. lookup_ino_path_one w (inode_vol_id x) (ino x) = Inr path \<and>
                     fopenat_rw w (inode_vol_id x) path = Inl e \<and>
                     \<not> (e = ETXTBSY \<or> e = EACCES \<or> e = ENOENT)));
       reached = takeWhile (\<lambda>x. \<forall>e. \<not> fatal x e) (comm_inodes comm3);
       result = open_candidates w (comm_inodes comm3) [] st;
       st' = snd (snd result)
   in skipped st' = skipped st @ filter deferred reached \<and>
      inode_table (pending (sess_of st')) =
        filter (\<lambda>row. \<not> list_ex (\<lambda>x. stale x \<and> has_key (inode_vol_id x) (ino x) row) reached)
          (inode_table (pending (sess_of st))) \<and>
      (\<forall>x\<in>set reached. stale x \<longrightarrow>
         find_inode (sess_of st') (inode_vol_id x) (ino x) = None) \<and>
      (\<forall>x\<in>set reached. deferred x \<longrightarrow>
         find_inode (sess_of st') (inode_vol_id x) (ino x) =
         find_inode (sess_of st) (inode_vol_id x) (ino x)) \<and>
      (list_all (\<lambda>x. \<forall>e. \<not> fatal x e) (comm_inodes comm3) \<longrightarrow> fst result = Returned) \<and>
      (\<forall>x rest e. comm_inodes comm3 = reached @ x # rest \<and> fatal x e \<longrightarrow>
         fst result = Raised (IOError e) \<and>
         clone_group w fs comm3 st = (Raised (IOError e), st'))"
proof -
  define stale where "stale = (\<lambda>x::inode. lookup_ino_path_one w (inode_vol_id x) (ino x) = Inl ENOENT)"
  define deferred where
    "deferred = (\<lambda>x::inode. \<exists>path e. lookup_ino_path_one w (inode_vol_id x) (ino x) = Inr path \<and>
                      fopenat_rw w (inode_vol_id x) path = Inl e \<and>
                      (e = ETXTBSY \<or> e = EACCES \<or> e = ENOENT))"
  define fatal where
    "fatal = (\<lambda>(x::inode) e. (lookup_ino_path_one w (inode_vol_id x) (ino x) = Inl e \<and> e \<noteq> ENOENT) \<or>
                  (\<exists>path. lookup_ino_path_one w (inode_vol_id x) (ino x) = Inr path \<and>
                     fopenat_rw w (inode_vol_id x) path = Inl e \<and>
                     \<not> (e = ETXTBSY \<or> e = EACCES \<or> e = ENOENT)))"
  define reached where "reached = takeWhile (\<lambda>x. \<forall>e. \<not> fatal x e) (comm_inodes comm3)"
  obtain out files' st' where run: "open_candidates w (comm_inodes comm3) [] st = (out, files', st')"
    by (cases "open_candidates w (comm_inodes comm3) [] st") auto
  have ex: "skipped st' = skipped st @ filter deferred reached \<and>
     inode_table (pending (sess_of st')) =
       filter (\<lambda>row. \<not> list_ex (\<lambda>x. stale x \<and> has_key (inode_vol_id x) (ino x) row) reached)
         (inode_table (pending (sess_of st))) \<and>
     volumes (pending (sess_of st')) = volumes (pending (sess_of st)) \<and>
     dedup_events (pending (sess_of st')) = dedup_events (pending (sess_of st)) \<and>
     persisted (sess_of st') = persisted (sess_of st) \<and>
     cloned st' = cloned st \<and>
     (list_all (\<lambda>x. \<forall>e. \<not> fatal x e) (comm_inodes comm3) \<longrightarrow> out = Returned) \<and>
     (\<forall>x rest e. comm_inodes comm3 = reached @ x # rest \<and> fatal x e \<longrightarrow>
        out = Raised (IOError e))"
    unfolding reached_def
    by (rule open_candidates_exact [OF _ _ _ run]) (simp_all add: stale_def deferred_def fatal_def)
  have gone: "find_inode (sess_of st') (inode_vol_id x) (ino x) = None"
    if "x \<in> set reached" "stale x" for x
  proof -
    have "find (has_key (inode_vol_id x) (ino x))
        (filter (\<lambda>row. \<not> list_ex (\<lambda>x. stale x \<and> has_key (inode_vol_id x) (ino x) row) reached)
           (inode_table (pending (sess_of st)))) = None"
      using that by (intro find_filter_gone) (auto simp: list_ex_iff)
    with ex show ?thesis by (simp add: find_inode_def)
  qed
  have kept: "find_inode (sess_of st') (inode_vol_id x) (ino x) =
      find_inode (sess_of st) (inode_vol_id x) (ino x)"
    if "deferred x" for x
  proof -
    have "\<not> list_ex (\<lambda>y. stale y \<and> has_key (inode_vol_id y) (ino y) row) reached"
      if k: "has_key (inode_vol_id x) (ino x) row" for row
    proof
      assume "list_ex (\<lambda>y. stale y \<and> has_key (inode_vol_id y) (ino y) row) reached"
      then obtain y where y: "stale y" "has_key (inode_vol_id y) (ino y) row"
        by (auto simp: list_ex_iff)
      from has_key_same [OF k y(2)] y(1) have "stale x"
        by (simp add: stale_def)
      with \<open>deferred x\<close> show False
        by (auto simp: stale_def deferred_def)
    qed
    then have "find (has_key (inode_vol_id x) (ino x))
        (filter (\<lambda>row. \<not> list_ex (\<lambda>x. stale x \<and> has_key (inode_vol_id x) (ino x) row) reached)
           (inode_table (pending (sess_of st)))) =
        find (has_key (inode_vol_id x) (ino x)) (inode_table (pending (sess_of st)))"
      by (intro find_filter_same)
    with ex show ?thesis by (simp add: find_inode_def)
  qed
  have group: "clone_group w fs comm3 st = (Raised (IOError e), st')"
    if "out = Raised (IOError e)" for e
    using run that by (simp add: clone_group_def)
  from ex gone kept group have
    "skipped st' = skipped st @ filter deferred reached \<and>
      inode_table (pending (sess_of st')) =
        filter (\<lambda>row. \<not> list_ex (\<lambda>x. stale x \<and> has_key (inode_vol_id x) (ino x) row) reached)
          (inode_table (pending (sess_of st))) \<and>
      (\<forall>x\<in>set reached. stale x \<longrightarrow>
         find_inode (sess_of st') (inode_vol_id x) (ino x) = None) \<and>
      (\<forall>x\<in>set reached. deferred x \<longrightarrow>
         find_inode (sess_of st') (inode_vol_id x) (ino x) =
         find_inode (sess_of st) (inode_vol_id x) (ino x)) \<and>
      (list_all (\<lambda>x. \<forall>e. \<not> fatal x e) (comm_inodes comm3) \<longrightarrow> out = Returned) \<and>
      (\<forall>x rest e. comm_inodes comm3 = reached @ x # rest \<and> fatal x e \<longrightarrow>
         out = Raised (IOError e) \<and>
         clone_group w fs comm3 st = (Raised (IOError e), st'))"
    by blast
  then show ?thesis
    unfolding Let_def run fst_conv snd_conv
    unfolding stale_def deferred_def fatal_def reached_def .
qed

theorem open_failures_witness:
  "skipped (snd (snd (open_candidates world_busy (comm_inodes two_group) [] st_limits))) =
     [inode_a, inode_b] \<and>
   inode_table (pending (sess_of
     (snd (snd (open_candidates world_busy (comm_inodes two_group) [] st_limits))))) =
     [inode_a, inode_b] \<and>
   fst (open_candidates world_eio (comm_inodes two_group) [] st_limits) = Raised (IOError 5)"
proof -
  from open_failures [of world_busy two_group st_limits 1]
  have 1: "skipped (snd (snd (open_candidates world_busy (comm_inodes two_group) [] st_limits))) =
     [inode_a, inode_b]"
    and 2: "inode_table (pending (sess_of
     (snd (snd (open_candidates world_busy (comm_inodes two_group) [] st_limits))))) =
     [inode_a, inode_b]"
    by (simp_all add: Let_def world_busy_def world_ok_def two_group_def st_limits_def
        sess_dups_def catalog_dups_def ETXTBSY_def EACCES_def ENOENT_def)
  have r: "takeWhile (\<lambda>x. \<forall>e. \<not> ((lookup_ino_path_one world_eio (inode_vol_id x) (ino x) = Inl e \<and> e \<noteq> ENOENT) \<or>
                  (\<exists>path. lookup_ino_path_one world_eio (inode_vol_id x) (ino x) = Inr path \<and>
                     fopenat_rw world_eio (inode_vol_id x) path = Inl e \<and>
                     \<not> (e = ETXTBSY \<or> e = EACCES \<or> e = ENOENT)))) (comm_inodes two_group) = []"
    by (simp add: world_eio_def world_ok_def two_group_def ETXTBSY_def EACCES_def ENOENT_def)
  from open_failures [of world_eio two_group st_limits 1, unfolded Let_def r]
  have "\<forall>x rest e. comm_inodes two_group = [] @ x # rest \<and>
      ((lookup_ino_path_one world_eio (inode_vol_id x) (ino x) = Inl e \<and> e \<noteq> ENOENT) \<or>
       (\<exists>path. lookup_ino_path_one world_eio (inode_vol_id x) (ino x) = Inr path \<and>
          fopenat_rw world_eio (inode_vol_id x) path = Inl e \<and>
          \<not> (e = ETXTBSY \<or> e = EACCES \<or> e = ENOENT))) \<longrightarrow>
      fst (open_candidates world_eio (comm_inodes two_group) [] st_limits) = Raised (IOError e)"
    by blast
  then have 3: "fst (open_candidates world_eio (comm_inodes two_group) [] st_limits) = Raised (IOError 5)"
    by (simp add: world_eio_def world_ok_def two_group_def ETXTBSY_def EACCES_def ENOENT_def)
  from 1 2 3 show ?thesis by blast
qed

section \<open>Properties of dedup_tracked\<close>

lemma resolve_windowed_query:
  "resolve module_defs ''windowed_query'' = Some [''window_start'', ''query'', ''attr'', ''per'']"
  by (simp add: resolve_def module_defs_def)

lemma bind_second_definition:
  "bind_call [''window_start'', ''query'', ''attr'', ''per''] 2 [''attr'', ''per'', ''clear_updates'']
     = Some TypeError"
  by (simp add: bind_call_def)

lemma bind_first_definition:
  "bind_call [''window_start'', ''query'', ''attr'', ''per'', ''clear_updates''] 2
     [''attr'', ''per'', ''clear_updates''] = None"
  by (simp add: bind_call_def)

lemma Commonality1_no_rows:
  "inode_table cat = [] \<Longrightarrow> Commonality1 cat fs vol_ids = []"
  by (simp add: Commonality1_def)

lemma Commonality1_dups: "Commonality1 (pending sess_dups) 1 [1] \<noteq> []"
  by (simp add: Commonality1_def sess_dups_def catalog_dups_def inode_a_def inode_b_def
      vol_kept_def Let_def)

lemma first_definition_would_call:
  "dedup_tracked [hd module_defs] never_called sess_dups [vol_kept] =
     (Returned, commit (forget_vol sess_dups 1))"
  using Commonality1_dups
  by (simp add: dedup_tracked_def Let_def module_defs_def resolve_def bind_first_definition
      never_called_def vol_kept_def sess_dups_def catalog_dups_def)

text \<open>
  C1: when the volumes of the set share their file system and the candidate
  query has a row, \<^verbatim>\<open>dedup_tracked\<close> raises \<^verbatim>\<open>TypeError\<close>: the call of
  \<^verbatim>\<open>windowed_query\<close> passes \<^verbatim>\<open>clear_updates\<close> to the second definition,
  which is the one the name resolves to and has no such parameter.  The session
  is returned as it was (no flag cleared, nothing committed), whatever
  \<^verbatim>\<open>dedup_tracked1\<close> would do.
\<close>

theorem dedup_tracked_type_error:
  assumes "list_all (\<lambda>vol. fs_id vol = fs_id vol0) (vol0 # vols)"
    and "Commonality1 (pending sess) (fs_id vol0) (map vol_id (vol0 # vols)) \<noteq> []"
  shows "dedup_tracked module_defs dedup_tracked1 sess (vol0 # vols) = (Raised TypeError, sess) \<and>
         resolve module_defs ''windowed_query'' = Some [''window_start'', ''query'', ''attr'', ''per'']"
proof -
  from assms(2) Commonality1_no_rows [of "pending sess"] obtain r rs where
    rows: "inode_table (pending sess) = r # rs"
    by (cases "inode_table (pending sess)") auto
  from assms rows have
    "dedup_tracked module_defs dedup_tracked1 sess (vol0 # vols) = (Raised TypeError, sess)"
    by (simp add: dedup_tracked_def Let_def resolve_windowed_query bind_second_definition)
  with resolve_windowed_query show ?thesis by simp
qed

theorem dedup_tracked_type_error_witness:
  "dedup_tracked module_defs never_called sess_dups [vol_kept] = (Raised TypeError, sess_dups)"
proof -
  have a: "list_all (\<lambda>vol. fs_id vol = fs_id vol_kept) (vol_kept # [])"
    by simp
  have b: "Commonality1 (pending sess_dups) (fs_id vol_kept) (map vol_id (vol_kept # [])) \<noteq> []"
    using Commonality1_dups by (simp add: vol_kept_def)
  from dedup_tracked_type_error [OF a b] show ?thesis by simp
qed

end
